theory Spec2Isabelle
  imports Main "HOL-Library.AList"
begin

section \<open>Python values used by \<open>sparse_matrix.py\<close>\<close>

text \<open>
  The module \<open>sparse_matrix.py\<close> defines the class \<open>SparseMatrix\<close>: a dictionary of
  dictionaries of integers with a line-oriented text format. This theory embeds the class
  method by method. Exceptions are values of the type \<open>error\<close> (the Python exception class
  with its message, or with the key for a \<open>KeyError\<close>), a method that mutates \<open>self\<close> returns the new \<open>self\<close>, and the three
  binary operations, which create a third object, run on an explicit store of objects.

  Text is a list of characters, one \<open>char\<close> per code point below 256. The predicates of
  Python's \<open>str\<close> are written out on that range: \<open>isspace\<close> holds for the code points
  9-13, 28-32, 133 and 160, \<open>isdigit\<close> for the ten decimal digits and for the
  superscripts 178, 179 and 185, which \<open>int()\<close> refuses. Integers are unbounded;
  \<open>str()\<close> and \<open>int()\<close> raise \<open>ValueError\<close> on a numeral of more than 4300 digits
  (\<open>sys.int_info.default_max_str_digits\<close>).
\<close>

datatype error =
    ValueError string
  | IndexError string
  | KeyError int
  | FileNotFoundError string

subsection \<open>Strings\<close>

definition isspace :: "char \<Rightarrow> bool" where
  "isspace c = (of_char c \<in> {9, 10, 11, 12, 13, 28, 29, 30, 31, 32, 133, 160 :: nat})"

definition isdecimal :: "char \<Rightarrow> bool" where
  "isdecimal c = (48 \<le> (of_char c :: nat) \<and> (of_char c :: nat) \<le> 57)"

definition isdigit_char :: "char \<Rightarrow> bool" where
  "isdigit_char c = (isdecimal c \<or> of_char c \<in> {178, 179, 185 :: nat})"

text \<open>\<open>s.isdigit()\<close>: at least one character, and every character is a digit.\<close>

definition isdigit :: "string \<Rightarrow> bool" where
  "isdigit s = (s \<noteq> [] \<and> list_all isdigit_char s)"

text \<open>\<open>s.strip()\<close> removes the whitespace at both ends.\<close>

definition lstrip :: "string \<Rightarrow> string" where
  "lstrip s = dropWhile isspace s"

definition rstrip :: "string \<Rightarrow> string" where
  "rstrip s = rev (dropWhile isspace (rev s))"

definition strip :: "string \<Rightarrow> string" where
  "strip s = rstrip (lstrip s)"

definition startswith :: "string \<Rightarrow> string \<Rightarrow> bool" where
  "startswith s p = (take (length p) s = p)"

definition endswith :: "string \<Rightarrow> string \<Rightarrow> bool" where
  "endswith s p = startswith (rev s) (rev p)"

text \<open>\<open>needle in hay\<close> for two strings: \<open>needle\<close> occurs as a contiguous part.\<close>

fun py_in :: "string \<Rightarrow> string \<Rightarrow> bool" where
  "py_in needle [] = (needle = [])"
| "py_in needle (c # cs) = (startswith (c # cs) needle \<or> py_in needle cs)"

text \<open>\<open>s.split(sep)\<close> for a separator of one character: cut at every occurrence.\<close>

fun split :: "char \<Rightarrow> string \<Rightarrow> string list" where
  "split sep [] = [[]]"
| "split sep (c # cs) =
     (if c = sep then [] # split sep cs
      else (case split sep cs of [] \<Rightarrow> [[c]] | p # ps \<Rightarrow> (c # p) # ps))"

text \<open>\<open>xs[i]\<close> for \<open>i \<ge> 0\<close>; out of range it raises \<open>IndexError\<close>.\<close>

definition getitem :: "'a list \<Rightarrow> nat \<Rightarrow> error + 'a" where
  "getitem xs i =
     (if i < length xs then Inr (xs ! i) else Inl (IndexError ''list index out of range''))"

text \<open>\<open>s[1:-1]\<close>: the string without its first and last character.\<close>

definition slice_1_m1 :: "string \<Rightarrow> string" where
  "slice_1_m1 s = butlast (tl s)"

subsection \<open>Integers and their numerals\<close>

text \<open>
  The decimal numeral of an integer: the digits, most significant first, and a minus
  sign below zero.
\<close>

fun str_nat :: "nat \<Rightarrow> string" where
  "str_nat n =
     (if n < 10 then [''0123456789'' ! n]
      else str_nat (n div 10) @ [''0123456789'' ! (n mod 10)])"

declare str_nat.simps [simp del]

definition numeral_text :: "int \<Rightarrow> string" where
  "numeral_text i = (if i < 0 then CHR ''-'' # str_nat (nat (- i)) else str_nat (nat i))"

text \<open>
  \<open>str(i)\<close>, which is also what \<open>{i}\<close> gives in an f-string: the decimal numeral, and
  \<open>ValueError\<close> when it has more than 4300 digits; the sign does not count.
\<close>

definition max_str_digits :: nat where
  "max_str_digits = 4300"

definition str :: "int \<Rightarrow> error + string" where
  "str i =
     (if max_str_digits < length (str_nat (nat \<bar>i\<bar>))
      then Inl (ValueError (''Exceeds the limit (4300 digits) for integer string conversion; ''
                  @ ''use sys.set_int_max_str_digits() to increase the limit''))
      else Inr (numeral_text i))"

text \<open>
  \<open>int(s)\<close>. The whitespace dropped at both ends is that of \<open>str.isspace\<close> without the
  code points 28-31. Then comes an optional sign, then the run of decimal digits and
  underscores, where an underscore must stand between two digits. A run that breaks this
  rule raises \<open>ValueError\<close> with the message \<open>invalid literal\<close>; then a run of more than
  4300 digits raises \<open>ValueError\<close> with the message of the limit, leading zeros counted
  and underscores not; then any text left after the run raises \<open>invalid literal\<close>. That
  message quotes the argument with \<open>repr\<close>, written here as plain quoting: that is what
  \<open>repr\<close> gives on printable text without quotes or backslashes.
\<close>

definition int_space :: "char \<Rightarrow> bool" where
  "int_space c = (of_char c \<in> {9, 10, 11, 12, 13, 32, 133, 160 :: nat})"

definition int_strip :: "string \<Rightarrow> string" where
  "int_strip s = rev (dropWhile int_space (rev (dropWhile int_space s)))"

definition repr :: "string \<Rightarrow> string" where
  "repr s = [CHR 0x27] @ s @ [CHR 0x27]"

fun digits_value :: "nat \<Rightarrow> string \<Rightarrow> nat" where
  "digits_value acc [] = acc"
| "digits_value acc (c # cs) = digits_value (10 * acc + (of_char c - 48)) cs"

fun grouped_digits :: "string \<Rightarrow> bool" where
  "grouped_digits [] = False"
| "grouped_digits [c] = isdecimal c"
| "grouped_digits (c # d # cs) =
     (isdecimal c \<and>
      (if d = CHR ''_'' then grouped_digits cs else grouped_digits (d # cs)))"

definition in_run :: "char \<Rightarrow> bool" where
  "in_run c = (isdecimal c \<or> c = CHR ''_'')"

definition int_literal :: "string \<Rightarrow> error + int" where
  "int_literal s =
     (let t = int_strip s;
          negative = (case t of [] \<Rightarrow> False | c # _ \<Rightarrow> c = CHR ''-'');
          body = (case t of [] \<Rightarrow> []
                  | c # cs \<Rightarrow> if c = CHR ''-'' \<or> c = CHR ''+'' then cs else t);
          run = takeWhile in_run body;
          rest = dropWhile in_run body;
          ds = filter isdecimal run
      in if \<not> grouped_digits run
         then Inl (ValueError (''invalid literal for int() with base 10: '' @ repr s))
         else if max_str_digits < length ds
         then Inl (ValueError (''Exceeds the limit (4300 digits) for integer string ''
                     @ ''conversion: value has '' @ str_nat (length ds)
                     @ '' digits; use sys.set_int_max_str_digits() to increase the limit''))
         else if rest \<noteq> []
         then Inl (ValueError (''invalid literal for int() with base 10: '' @ repr s))
         else (let n = int (digits_value 0 ds) in Inr (if negative then - n else n)))"

subsection \<open>Dictionaries\<close>

text \<open>
  A \<open>dict\<close> keeps its keys in insertion order, and the loops of the module run over
  \<open>items()\<close> in that order. It is an association list without repeated keys:
  \<open>AList.update\<close> overwrites a present key in place and appends a new one at the end, as an
  assignment \<open>d[k] = v\<close> does, and \<open>AList.delete\<close> is \<open>del d[k]\<close>.
\<close>

type_synonym ('k, 'v) dict = "('k \<times> 'v) list"

definition contains_key :: "'k \<Rightarrow> ('k, 'v) dict \<Rightarrow> bool" where
  "contains_key k d = (k \<in> set (map fst d))"

definition dict_get :: "('k, 'v) dict \<Rightarrow> 'k \<Rightarrow> 'v \<Rightarrow> 'v" where
  "dict_get d k dflt = (case map_of d k of None \<Rightarrow> dflt | Some v \<Rightarrow> v)"

definition dict_getitem :: "(int, 'v) dict \<Rightarrow> int \<Rightarrow> error + 'v" where
  "dict_getitem d k = (case map_of d k of None \<Rightarrow> Inl (KeyError k) | Some v \<Rightarrow> Inr v)"

section \<open>The class \<open>SparseMatrix\<close>\<close>

record SparseMatrix =
  matrix_data :: "(int, (int, int) dict) dict"
  file_declared_max_row :: int
  file_declared_max_col :: int
  rows :: int
  cols :: int

text \<open>The start of \<open>__init__\<close>: the fields before either branch runs.\<close>

definition blank_matrix :: SparseMatrix where
  "blank_matrix =
     \<lparr>matrix_data = [], file_declared_max_row = - 1, file_declared_max_col = - 1,
      rows = 0, cols = 0\<rparr>"

text \<open>\<open>SparseMatrix(num_rows, num_cols)\<close>: the branch of \<open>__init__\<close> for two integers.\<close>

definition init_dimensions :: "int \<Rightarrow> int \<Rightarrow> error + SparseMatrix" where
  "init_dimensions num_rows_count num_cols_count =
     (if num_rows_count < 0 \<or> num_cols_count < 0
      then Inl (ValueError ''Matrix dimension counts must be non-negative.'')
      else Inr (blank_matrix
             \<lparr>rows := num_rows_count, cols := num_cols_count,
              file_declared_max_row := num_rows_count - 1,
              file_declared_max_col := num_cols_count - 1\<rparr>))"

definition in_bounds :: "SparseMatrix \<Rightarrow> int \<Rightarrow> int \<Rightarrow> bool" where
  "in_bounds self curr_row curr_col =
     (0 \<le> curr_row \<and> curr_row < rows self \<and> 0 \<le> curr_col \<and> curr_col < cols self)"

definition get_element :: "SparseMatrix \<Rightarrow> int \<Rightarrow> int \<Rightarrow> error + int" where
  "get_element self curr_row curr_col =
     (if \<not> in_bounds self curr_row curr_col
      then Inl (IndexError ''Element index out of bounds.'')
      else Inr (dict_get (dict_get (matrix_data self) curr_row []) curr_col 0))"

text \<open>
  \<open>set_element\<close>: a zero deletes the entry, and the row with it when it was the row's last
  one; any other value is stored, in a new row dictionary when the row has none
  (\<open>setdefault\<close>).
\<close>

definition set_element :: "SparseMatrix \<Rightarrow> int \<Rightarrow> int \<Rightarrow> int \<Rightarrow> error + SparseMatrix" where
  "set_element self curr_row curr_col val =
     (if \<not> in_bounds self curr_row curr_col
      then Inl (IndexError ''Element index out of bounds.'')
      else if val = 0 then
        (case map_of (matrix_data self) curr_row of
           None \<Rightarrow> Inr self
         | Some row_dict \<Rightarrow>
             if contains_key curr_col row_dict then
               (let row_dict' = AList.delete curr_col row_dict in
                if row_dict' = []
                then Inr (self\<lparr>matrix_data := AList.delete curr_row (matrix_data self)\<rparr>)
                else Inr (self\<lparr>matrix_data :=
                            AList.update curr_row row_dict' (matrix_data self)\<rparr>))
             else Inr self)
      else
        Inr (self\<lparr>matrix_data :=
               AList.update curr_row
                 (AList.update curr_col val (dict_get (matrix_data self) curr_row []))
                 (matrix_data self)\<rparr>))"

subsection \<open>Reading a file\<close>

definition is_valid_int :: "string \<Rightarrow> bool" where
  "is_valid_int s_val =
     (case strip s_val of
        [] \<Rightarrow> False
      | c # cs \<Rightarrow>
          if c = CHR ''+'' \<or> c = CHR ''-'' then length (c # cs) > 1 \<and> isdigit cs
          else isdigit (c # cs))"

text \<open>
  The messages that name a line are f-strings ending in \<open>{line_num + 1}\<close>, and the
  message for an entry out of bounds holds \<open>{r}\<close> and \<open>{c}\<close>. The f-string is evaluated
  before the \<open>ValueError\<close> is made, so the exception raised is that of \<open>str\<close> when \<open>str\<close>
  raises.
\<close>

definition line_error :: "string \<Rightarrow> nat \<Rightarrow> error" where
  "line_error text_before line_num =
     (case str (int line_num + 1) of
        Inl e \<Rightarrow> e
      | Inr n \<Rightarrow> ValueError (text_before @ n))"

definition bounds_error :: "int \<Rightarrow> int \<Rightarrow> error" where
  "bounds_error r c =
     (case str r of Inl e \<Rightarrow> e | Inr rt \<Rightarrow>
     (case str c of Inl e \<Rightarrow> e | Inr ct \<Rightarrow>
        ValueError (''Input file has wrong format: Data entry ('' @ rt @ '','' @ ct
          @ '') out of bounds.'')))"

text \<open>
  \<open>_validate_and_set_dimension\<close>. Its parameters \<open>line_num\<close> and \<open>raw_line\<close> are not
  used by the body.
\<close>

definition validate_and_set_dimension ::
  "SparseMatrix \<Rightarrow> string \<Rightarrow> nat \<Rightarrow> string \<Rightarrow> string \<Rightarrow> error + SparseMatrix" where
  "validate_and_set_dimension self val_str line_num raw_line dim_type =
     (if \<not> is_valid_int val_str
      then Inl (ValueError (''Input file has wrong format: '' @ [CHR 0x27] @ dim_type
                  @ ''s'' @ [CHR 0x27] @ '' value is not an integer''))
      else
        (case int_literal val_str of
           Inl e \<Rightarrow> Inl e
         | Inr declared_max \<Rightarrow>
             if declared_max < - 1
             then Inl (ValueError (''Input file has wrong format: '' @ [CHR 0x27]
                         @ dim_type @ ''s'' @ [CHR 0x27]
                         @ '' value cannot be less than -1''))
             else if dim_type = ''row''
             then Inr (self\<lparr>file_declared_max_row := declared_max,
                            rows := declared_max + 1\<rparr>)
             else Inr (self\<lparr>file_declared_max_col := declared_max,
                            cols := declared_max + 1\<rparr>)))"

text \<open>
  The two header branches of \<open>_parse_file\<close> differ only in the name, \<open>row\<close> or \<open>col\<close>.
  The \<open>try\<close> block takes the text between the first and the second \<open>=\<close> of the line
  (\<open>line.split('=')[1]\<close>) and validates it; the handler lets an exception pass when its
  message holds the format marker and replaces any other \<open>IndexError\<close> or \<open>ValueError\<close>
  by the message with the line number. \<open>caught e\<close> is \<open>str(e)\<close>, the message, for an
  exception \<open>e\<close> of the two classes that \<open>except (IndexError, ValueError)\<close> catches.
\<close>

fun caught :: "error \<Rightarrow> string option" where
  "caught (ValueError m) = Some m"
| "caught (IndexError m) = Some m"
| "caught (KeyError k) = None"
| "caught (FileNotFoundError m) = None"

definition header_try ::
  "SparseMatrix \<Rightarrow> string \<Rightarrow> nat \<Rightarrow> string \<Rightarrow> string \<Rightarrow> error + SparseMatrix" where
  "header_try self line line_num raw_line dim_type =
     (case getitem (split (CHR ''='') line) 1 of
        Inl e \<Rightarrow> Inl e
      | Inr s \<Rightarrow> validate_and_set_dimension self (strip s) line_num raw_line dim_type)"

definition header_line ::
  "SparseMatrix \<Rightarrow> string \<Rightarrow> nat \<Rightarrow> string \<Rightarrow> string \<Rightarrow> error + SparseMatrix" where
  "header_line self line line_num raw_line dim_type =
     (case header_try self line line_num raw_line dim_type of
        Inr self' \<Rightarrow> Inr self'
      | Inl e \<Rightarrow>
          (case caught e of
             None \<Rightarrow> Inl e
           | Some m \<Rightarrow>
               if py_in ''Input file has wrong format'' m then Inl e
               else Inl (line_error (''Input file has wrong format: Malformed '' @ [CHR 0x27]
                           @ dim_type @ ''s'' @ [CHR 0x27] @ '' entry on line '') line_num)))"

text \<open>The data branch of the loop, after the test that both headers were seen.\<close>

definition data_line :: "SparseMatrix \<Rightarrow> string \<Rightarrow> nat \<Rightarrow> error + SparseMatrix" where
  "data_line self line line_num =
     (let parts = map strip (split (CHR '','') (strip (slice_1_m1 line))) in
      if length parts \<noteq> 3 \<or> \<not> list_all is_valid_int parts
      then Inl (line_error ''Input file has wrong format: Invalid data entry on line ''
                  line_num)
      else
        (case int_literal (parts ! 0) of Inl e \<Rightarrow> Inl e | Inr r \<Rightarrow>
        (case int_literal (parts ! 1) of Inl e \<Rightarrow> Inl e | Inr c \<Rightarrow>
        (case int_literal (parts ! 2) of Inl e \<Rightarrow> Inl e | Inr v \<Rightarrow>
           if \<not> (0 \<le> r \<and> r < rows self \<and> 0 \<le> c \<and> c < cols self)
           then Inl (bounds_error r c)
           else set_element self r c v))))"

text \<open>
  One turn of the loop of \<open>_parse_file\<close>. The state is the matrix under construction
  with the flags \<open>parsed_rows\<close> and \<open>parsed_cols\<close>; \<open>line_num\<close> counts from 0.
\<close>

type_synonym parse_state = "SparseMatrix \<times> bool \<times> bool"

definition parse_line :: "parse_state \<Rightarrow> nat \<Rightarrow> string \<Rightarrow> error + parse_state" where
  "parse_line st line_num raw_line =
     (case st of (self, parsed_rows, parsed_cols) \<Rightarrow>
       (let line = strip raw_line in
        if line = [] then Inr st
        else if startswith line ''rows='' then
          (if parsed_rows
           then Inl (ValueError (''Input file has wrong format: '' @ [CHR 0x27] @ ''rows''
                       @ [CHR 0x27] @ '' specified multiple times.''))
           else (case header_line self line line_num raw_line ''row'' of
                   Inl e \<Rightarrow> Inl e
                 | Inr self' \<Rightarrow> Inr (self', True, parsed_cols)))
        else if startswith line ''cols='' then
          (if parsed_cols
           then Inl (ValueError (''Input file has wrong format: '' @ [CHR 0x27] @ ''cols''
                       @ [CHR 0x27] @ '' specified multiple times.''))
           else (case header_line self line line_num raw_line ''col'' of
                   Inl e \<Rightarrow> Inl e
                 | Inr self' \<Rightarrow> Inr (self', parsed_rows, True)))
        else if startswith line ''('' \<and> endswith line '')'' then
          (if \<not> parsed_rows \<or> \<not> parsed_cols
           then Inl (ValueError (''Input file has wrong format: Matrix dimensions ''
                       @ ''must be defined before data entries.''))
           else (case data_line self line line_num of
                   Inl e \<Rightarrow> Inl e
                 | Inr self' \<Rightarrow> Inr (self', parsed_rows, parsed_cols)))
        else Inl (line_error (''Input file has wrong format: Unrecognized line format ''
                    @ ''on line '') line_num)))"

fun parse_lines :: "parse_state \<Rightarrow> nat \<Rightarrow> string list \<Rightarrow> error + parse_state" where
  "parse_lines st line_num [] = Inr st"
| "parse_lines st line_num (raw_line # rest) =
     (case parse_line st line_num raw_line of
        Inl e \<Rightarrow> Inl e
      | Inr st' \<Rightarrow> parse_lines st' (Suc line_num) rest)"

text \<open>
  A file opened in text mode turns \<open>\r\n\<close> and \<open>\r\<close> into \<open>\n\<close>, and \<open>readlines\<close> cuts
  after every \<open>\n\<close>, keeping it at the end of the line.
\<close>

fun universal_newlines :: "string \<Rightarrow> string" where
  "universal_newlines [] = []"
| "universal_newlines [c] = (if c = CHR 0x0D then [CHR 0x0A] else [c])"
| "universal_newlines (c # d # cs) =
     (if c = CHR 0x0D \<and> d = CHR 0x0A then CHR 0x0A # universal_newlines cs
      else if c = CHR 0x0D then CHR 0x0A # universal_newlines (d # cs)
      else c # universal_newlines (d # cs))"

fun cut_lines :: "string \<Rightarrow> string list" where
  "cut_lines [] = []"
| "cut_lines (c # cs) =
     (if c = CHR 0x0A then [c] # cut_lines cs
      else (case cut_lines cs of [] \<Rightarrow> [[c]] | l # ls \<Rightarrow> (c # l) # ls))"

definition readlines :: "string \<Rightarrow> string list" where
  "readlines content = cut_lines (universal_newlines content)"

text \<open>
  The file system is a map from paths to file contents. \<open>_parse_file\<close> reads the file,
  resets the declared indices, runs the loop and checks that both headers were seen.
\<close>

type_synonym file_system = "string \<rightharpoonup> string"

definition parse_file :: "SparseMatrix \<Rightarrow> file_system \<Rightarrow> string \<Rightarrow> error + SparseMatrix" where
  "parse_file self fs file_path =
     (case fs file_path of
        None \<Rightarrow> Inl (FileNotFoundError (''Input file not found: '' @ file_path))
      | Some content \<Rightarrow>
          (case parse_lines
                  (self\<lparr>file_declared_max_row := - 2, file_declared_max_col := - 2\<rparr>,
                   False, False) 0 (readlines content) of
             Inl e \<Rightarrow> Inl e
           | Inr (self', parsed_rows, parsed_cols) \<Rightarrow>
               if \<not> parsed_rows \<or> \<not> parsed_cols
               then Inl (ValueError (''Input file has wrong format: Missing '' @ [CHR 0x27]
                           @ ''rows'' @ [CHR 0x27] @ '' or '' @ [CHR 0x27] @ ''cols''
                           @ [CHR 0x27] @ '' definition.''))
               else Inr self'))"

text \<open>\<open>SparseMatrix(path)\<close>: the branch of \<open>__init__\<close> for a string.\<close>

definition init_file :: "file_system \<Rightarrow> string \<Rightarrow> error + SparseMatrix" where
  "init_file fs source = parse_file blank_matrix fs source"

subsection \<open>Writing a file\<close>





text \<open>
  Whether \<open>open(file_path, 'w')\<close> succeeds is a matter of the disk: of the directories,
  the permissions, and of the path, which must not be empty. A disk is the files it
  holds together with \<open>refused\<close>, the exception that opening a path for writing raises
  there, if any. When the file cannot be opened, nothing is written.
\<close>

record disk =
  files :: file_system
  refused :: "string \<Rightarrow> error option"


section \<open>The binary operations on a store of objects\<close>

text \<open>
  \<open>operate\<close> and \<open>multiply\<close> work with three objects: \<open>self\<close>, \<open>other_matrix\<close> and the
  \<open>result_matrix\<close> they create. The store is the list of all matrix objects, an object's
  reference is its index, and a new object is put at the end. A method called on a
  reference reads the object there and writes the new object back. Every step returns
  the store it leaves behind, also when it raises: a statement returns the exception it
  raised, if any, and a call that creates an object returns the exception or the
  reference. The row dictionaries are held by value: \<open>set_element\<close> makes every row
  dictionary itself, so no two matrices share one.
\<close>

type_synonym ref = nat
type_synonym store = "SparseMatrix list"

definition new_matrix :: "store \<Rightarrow> int \<Rightarrow> int \<Rightarrow> (error + ref) \<times> store" where
  "new_matrix h num_rows num_cols =
     (case init_dimensions num_rows num_cols of
        Inl e \<Rightarrow> (Inl e, h)
      | Inr m \<Rightarrow> (Inr (length h), h @ [m]))"

definition set_element_at :: "store \<Rightarrow> ref \<Rightarrow> int \<Rightarrow> int \<Rightarrow> int \<Rightarrow> error option \<times> store" where
  "set_element_at h p r c v =
     (case set_element (h ! p) r c v of
        Inl e \<Rightarrow> (Some e, h)
      | Inr m \<Rightarrow> (None, h[p := m]))"

definition get_element_at :: "store \<Rightarrow> ref \<Rightarrow> int \<Rightarrow> int \<Rightarrow> error + int" where
  "get_element_at h p r c = get_element (h ! p) r c"

text \<open>The first pair of loops of \<open>operate\<close>: every entry of \<open>self\<close> is set in the result.\<close>

fun copy_cols :: "store \<Rightarrow> ref \<Rightarrow> int \<Rightarrow> (int, int) dict \<Rightarrow> error option \<times> store" where
  "copy_cols h result_matrix r [] = (None, h)"
| "copy_cols h result_matrix r ((c, val) # cols_data) =
     (case set_element_at h result_matrix r c val of
        (Some e, h') \<Rightarrow> (Some e, h')
      | (None, h') \<Rightarrow> copy_cols h' result_matrix r cols_data)"

fun copy_rows :: "store \<Rightarrow> ref \<Rightarrow> (int, (int, int) dict) dict \<Rightarrow> error option \<times> store" where
  "copy_rows h result_matrix [] = (None, h)"
| "copy_rows h result_matrix ((r, cols_data) # items) =
     (case copy_cols h result_matrix r cols_data of
        (Some e, h') \<Rightarrow> (Some e, h')
      | (None, h') \<Rightarrow> copy_rows h' result_matrix items)"

text \<open>
  The second pair of loops: every entry of \<open>other_matrix\<close> is combined with the value the
  result holds at its position.
\<close>

fun combine_cols ::
  "store \<Rightarrow> ref \<Rightarrow> (int \<Rightarrow> int \<Rightarrow> int) \<Rightarrow> int \<Rightarrow> (int, int) dict \<Rightarrow> error option \<times> store" where
  "combine_cols h result_matrix operation r [] = (None, h)"
| "combine_cols h result_matrix operation r ((c, val) # cols_data) =
     (case get_element_at h result_matrix r c of
        Inl e \<Rightarrow> (Some e, h)
      | Inr current_val \<Rightarrow>
          (case set_element_at h result_matrix r c (operation current_val val) of
             (Some e, h') \<Rightarrow> (Some e, h')
           | (None, h') \<Rightarrow> combine_cols h' result_matrix operation r cols_data))"

fun combine_rows ::
  "store \<Rightarrow> ref \<Rightarrow> (int \<Rightarrow> int \<Rightarrow> int) \<Rightarrow> (int, (int, int) dict) dict
     \<Rightarrow> error option \<times> store" where
  "combine_rows h result_matrix operation [] = (None, h)"
| "combine_rows h result_matrix operation ((r, cols_data) # items) =
     (case combine_cols h result_matrix operation r cols_data of
        (Some e, h') \<Rightarrow> (Some e, h')
      | (None, h') \<Rightarrow> combine_rows h' result_matrix operation items)"

definition operate ::
  "store \<Rightarrow> ref \<Rightarrow> ref \<Rightarrow> (int \<Rightarrow> int \<Rightarrow> int) \<Rightarrow> (error + ref) \<times> store" where
  "operate h self other_matrix operation =
     (if rows (h ! self) \<noteq> rows (h ! other_matrix) \<or> cols (h ! self) \<noteq> cols (h ! other_matrix)
      then (Inl (ValueError ''Matrices must have the same dimensions for this operation.''), h)
      else
        (case new_matrix h (rows (h ! self)) (cols (h ! self)) of
           (Inl e, h1) \<Rightarrow> (Inl e, h1)
         | (Inr result_matrix, h1) \<Rightarrow>
        (case copy_rows h1 result_matrix (matrix_data (h1 ! self)) of
           (Some e, h2) \<Rightarrow> (Inl e, h2)
         | (None, h2) \<Rightarrow>
        (case combine_rows h2 result_matrix operation (matrix_data (h2 ! other_matrix)) of
           (Some e, h3) \<Rightarrow> (Inl e, h3)
         | (None, h3) \<Rightarrow> (Inr result_matrix, h3)))))"

definition add :: "store \<Rightarrow> ref \<Rightarrow> ref \<Rightarrow> (error + ref) \<times> store" where
  "add h self other_matrix = operate h self other_matrix (\<lambda>x y. x + y)"

definition subtract :: "store \<Rightarrow> ref \<Rightarrow> ref \<Rightarrow> (error + ref) \<times> store" where
  "subtract h self other_matrix = operate h self other_matrix (\<lambda>x y. x - y)"

text \<open>
  \<open>multiply\<close>: for every entry \<open>(r1, c1)\<close> of \<open>self\<close>, and every entry \<open>(c1, c2)\<close> of the row
  \<open>c1\<close> of \<open>other_matrix\<close> when it has that row, the product is added to the result at
  \<open>(r1, c2)\<close>.
\<close>

fun multiply_inner ::
  "store \<Rightarrow> ref \<Rightarrow> int \<Rightarrow> int \<Rightarrow> (int, int) dict \<Rightarrow> error option \<times> store" where
  "multiply_inner h result_matrix r1 val1 [] = (None, h)"
| "multiply_inner h result_matrix r1 val1 ((c2, val2) # items) =
     (case get_element_at h result_matrix r1 c2 of
        Inl e \<Rightarrow> (Some e, h)
      | Inr current_val \<Rightarrow>
          (case set_element_at h result_matrix r1 c2 (current_val + val1 * val2) of
             (Some e, h') \<Rightarrow> (Some e, h')
           | (None, h') \<Rightarrow> multiply_inner h' result_matrix r1 val1 items))"

fun multiply_cols ::
  "store \<Rightarrow> ref \<Rightarrow> ref \<Rightarrow> int \<Rightarrow> (int, int) dict \<Rightarrow> error option \<times> store" where
  "multiply_cols h result_matrix other_matrix r1 [] = (None, h)"
| "multiply_cols h result_matrix other_matrix r1 ((c1, val1) # row_data1) =
     (case (if contains_key c1 (matrix_data (h ! other_matrix))
            then (case dict_getitem (matrix_data (h ! other_matrix)) c1 of
                    Inl e \<Rightarrow> (Some e, h)
                  | Inr row_data2 \<Rightarrow> multiply_inner h result_matrix r1 val1 row_data2)
            else (None, h)) of
        (Some e, h') \<Rightarrow> (Some e, h')
      | (None, h') \<Rightarrow> multiply_cols h' result_matrix other_matrix r1 row_data1)"

fun multiply_rows ::
  "store \<Rightarrow> ref \<Rightarrow> ref \<Rightarrow> (int, (int, int) dict) dict \<Rightarrow> error option \<times> store" where
  "multiply_rows h result_matrix other_matrix [] = (None, h)"
| "multiply_rows h result_matrix other_matrix ((r1, row_data1) # items) =
     (case multiply_cols h result_matrix other_matrix r1 row_data1 of
        (Some e, h') \<Rightarrow> (Some e, h')
      | (None, h') \<Rightarrow> multiply_rows h' result_matrix other_matrix items)"

definition multiply :: "store \<Rightarrow> ref \<Rightarrow> ref \<Rightarrow> (error + ref) \<times> store" where
  "multiply h self other_matrix =
     (if cols (h ! self) \<noteq> rows (h ! other_matrix)
      then (Inl (ValueError ''Incompatible dimensions for matrix multiplication.''), h)
      else
        (case new_matrix h (rows (h ! self)) (cols (h ! other_matrix)) of
           (Inl e, h1) \<Rightarrow> (Inl e, h1)
         | (Inr result_matrix, h1) \<Rightarrow>
        (case multiply_rows h1 result_matrix other_matrix (matrix_data (h1 ! self)) of
           (Some e, h2) \<Rightarrow> (Inl e, h2)
         | (None, h2) \<Rightarrow> (Inr result_matrix, h2))))"

section \<open>What a matrix holds\<close>

text \<open>
  \<open>entry\<close> is the stored value at a position, if there is one, and \<open>cell\<close> the value the
  matrix has there: the stored one, or 0. A matrix is well formed when its dimensions are
  not negative, no key occurs twice in a dictionary, every key lies inside the dimensions
  and no stored value is 0.
\<close>

definition entry :: "SparseMatrix \<Rightarrow> int \<Rightarrow> int \<Rightarrow> int option" where
  "entry m r c = (case map_of (matrix_data m) r of None \<Rightarrow> None | Some row \<Rightarrow> map_of row c)"

definition cell :: "SparseMatrix \<Rightarrow> int \<Rightarrow> int \<Rightarrow> int" where
  "cell m r c = (case entry m r c of None \<Rightarrow> 0 | Some v \<Rightarrow> v)"

definition well_formed :: "SparseMatrix \<Rightarrow> bool" where
  "well_formed m =
     (0 \<le> rows m \<and> 0 \<le> cols m \<and> distinct (map fst (matrix_data m)) \<and>
      list_all (\<lambda>(r, row). 0 \<le> r \<and> r < rows m \<and> distinct (map fst row) \<and>
                  list_all (\<lambda>(c, v). 0 \<le> c \<and> c < cols m \<and> v \<noteq> 0) row)
        (matrix_data m))"

text \<open>
  \<open>evolves p h h'\<close>: the store \<open>h'\<close> has the objects of \<open>h\<close>, all of them unchanged but
  the one at \<open>p\<close>, which keeps its dimensions and stays well formed if it was.
\<close>

definition evolves :: "ref \<Rightarrow> store \<Rightarrow> store \<Rightarrow> bool" where
  "evolves p h h' =
     (length h' = length h \<and> (\<forall>q. q \<noteq> p \<longrightarrow> h' ! q = h ! q) \<and>
      rows (h' ! p) = rows (h ! p) \<and> cols (h' ! p) = cols (h ! p) \<and>
      (well_formed (h ! p) \<longrightarrow> well_formed (h' ! p)))"

text \<open>The condition of \<open>well_formed\<close> on the items, for dimensions \<open>nr\<close> and \<open>nc\<close>.\<close>

abbreviation items_within :: "int \<Rightarrow> int \<Rightarrow> (int, (int, int) dict) dict \<Rightarrow> bool" where
  "items_within nr nc items \<equiv>
     list_all (\<lambda>(r, row). 0 \<le> r \<and> r < nr \<and> distinct (map fst row) \<and>
                 list_all (\<lambda>(c, v). 0 \<le> c \<and> c < nc \<and> v \<noteq> 0) row) items"

text \<open>
  The two matrices read from the files \<open>rows=1 cols=1 (0,0,5)\<close> and
  \<open>rows=1 cols=1 (0,0,3)\<close>.
\<close>

definition five_at_origin :: SparseMatrix where
  "five_at_origin =
     \<lparr>matrix_data = [(0, [(0, 5)])], file_declared_max_row = 1,
      file_declared_max_col = 1, rows = 2, cols = 2\<rparr>"

definition three_at_origin :: SparseMatrix where
  "three_at_origin =
     \<lparr>matrix_data = [(0, [(0, 3)])], file_declared_max_row = 1,
      file_declared_max_col = 1, rows = 2, cols = 2\<rparr>"

text \<open>
  The operands of the multiplication example: \<open>A\<close> is 2 by 2 with the entries
  \<open>(0,0,1)\<close> and \<open>(0,1,2)\<close>, \<open>B\<close> is 2 by 2 with the entries \<open>(0,0,3)\<close> and \<open>(1,0,4)\<close>.
\<close>

definition example_A :: SparseMatrix where
  "example_A =
     \<lparr>matrix_data = [(0, [(0, 1), (1, 2)])], file_declared_max_row = 1,
      file_declared_max_col = 1, rows = 2, cols = 2\<rparr>"

definition example_B :: SparseMatrix where
  "example_B =
     \<lparr>matrix_data = [(0, [(0, 3)]), (1, [(0, 4)])], file_declared_max_row = 1,
      file_declared_max_col = 1, rows = 2, cols = 2\<rparr>"

text \<open>
  The invariant of the loop of \<open>_parse_file\<close>: the matrix under construction is well
  formed, and it holds no entry before both headers were seen.
\<close>

definition parsing :: "parse_state \<Rightarrow> bool" where
  "parsing st =
     (case st of (self, parsed_rows, parsed_cols) \<Rightarrow>
        well_formed self \<and> (\<not> (parsed_rows \<and> parsed_cols) \<longrightarrow> matrix_data self = []))"

text \<open>A line that has none of the three shapes the loop of \<open>_parse_file\<close> knows.\<close>

definition unrecognized_line :: "string \<Rightarrow> bool" where
  "unrecognized_line raw_line =
     (let line = strip raw_line in
      line \<noteq> [] \<and> \<not> startswith line ''rows='' \<and> \<not> startswith line ''cols='' \<and>
      \<not> (startswith line ''('' \<and> endswith line '')''))"

text \<open>
  \<open>addresses raw_line r c v\<close>: the line has the shape of a data line, holds exactly three
  integer fields, and they denote the row \<open>r\<close>, the column \<open>c\<close> and the value \<open>v\<close>.
\<close>

definition addresses :: "string \<Rightarrow> int \<Rightarrow> int \<Rightarrow> int \<Rightarrow> bool" where
  "addresses raw_line r c v =
     (let line = strip raw_line;
          parts = map strip (split (CHR '','') (strip (slice_1_m1 line))) in
      startswith line ''('' \<and> endswith line '')'' \<and>
      length parts = 3 \<and> list_all is_valid_int parts \<and>
      int_literal (parts ! 0) = Inr r \<and> int_literal (parts ! 1) = Inr c \<and>
      int_literal (parts ! 2) = Inr v)"









text \<open>
  \<open>padded l' l\<close>: the line \<open>l'\<close> is the line \<open>l\<close> with whitespace added before and after
  the line and, in a header line, after the \<open>=\<close>, or, in a data line, inside the
  parentheses and around the three fields.
\<close>

inductive padded :: "string \<Rightarrow> string \<Rightarrow> bool" where
  rows: "list_all isspace w1 \<Longrightarrow> list_all isspace w2 \<Longrightarrow> list_all isspace w3 \<Longrightarrow>
     padded (w1 @ ''rows='' @ w2 @ val @ w3) (''rows='' @ val)"
| cols: "list_all isspace w1 \<Longrightarrow> list_all isspace w2 \<Longrightarrow> list_all isspace w3 \<Longrightarrow>
     padded (w1 @ ''cols='' @ w2 @ val @ w3) (''cols='' @ val)"
| data: "list_all isspace w0 \<Longrightarrow> list_all isspace w1 \<Longrightarrow> list_all isspace w2 \<Longrightarrow>
     list_all isspace w3 \<Longrightarrow> list_all isspace w4 \<Longrightarrow> list_all isspace w5 \<Longrightarrow>
     list_all isspace w6 \<Longrightarrow> list_all isspace w7 \<Longrightarrow>
     padded (w0 @ ''('' @ w1 @ a @ w2 @ '','' @ w3 @ b @ w4 @ '','' @ w5 @ c @ w6 @ '')'' @ w7)
            (''('' @ a @ '','' @ b @ '','' @ c @ '')'')"

section \<open>Element access\<close>

lemma list_all_update:
  "list_all P al \<Longrightarrow> P (k, v) \<Longrightarrow> list_all P (AList.update k v al)"
  by (induction al) auto

lemma list_all_delete: "list_all P al \<Longrightarrow> list_all P (AList.delete k al)"
  by (induction al) auto

lemma list_all_map_of:
  "list_all P al \<Longrightarrow> map_of al k = Some v \<Longrightarrow> P (k, v)"
  by (auto simp: list_all_iff dest: map_of_SomeD)

lemma delete_eq_Nil_map_of:
  "AList.delete k al = [] \<Longrightarrow> k' \<noteq> k \<Longrightarrow> map_of al k' = None"
  by (induction al) (auto split: if_splits)

lemma not_contains_key_map_of: "\<not> contains_key k d \<Longrightarrow> map_of d k = None"
  by (simp add: contains_key_def map_of_eq_None_iff)

lemma get_element_cell:
  "get_element m r c =
     (if in_bounds m r c then Inr (cell m r c)
      else Inl (IndexError ''Element index out of bounds.''))"
  by (simp add: get_element_def cell_def entry_def dict_get_def split: option.splits)

lemma set_element_succeeds:
  "in_bounds m r c \<Longrightarrow> \<exists>m'. set_element m r c v = Inr m'"
  by (simp add: set_element_def Let_def split: option.splits)

lemma set_element_fails:
  "\<not> in_bounds m r c \<Longrightarrow>
     set_element m r c v = Inl (IndexError ''Element index out of bounds.'')"
  by (simp add: set_element_def)

lemma set_element_dims:
  "set_element m r c v = Inr m' \<Longrightarrow>
     rows m' = rows m \<and> cols m' = cols m \<and>
     file_declared_max_row m' = file_declared_max_row m \<and>
     file_declared_max_col m' = file_declared_max_col m"
  by (auto simp: set_element_def Let_def split: if_splits option.splits)

lemma set_element_in_bounds:
  "set_element m r c v = Inr m' \<Longrightarrow> in_bounds m r c"
  by (auto simp: set_element_def split: if_splits)

lemma set_element_entry:
  assumes "set_element m r c v = Inr m'"
  shows "entry m' r' c' =
           (if r' = r \<and> c' = c then (if v = 0 then None else Some v) else entry m r' c')"
proof (cases "v = 0")
  case False
  with assms have "matrix_data m' =
      AList.update r (AList.update c v (dict_get (matrix_data m) r [])) (matrix_data m)"
    by (auto simp: set_element_def split: if_splits)
  then show ?thesis using False
    by (auto simp: entry_def update_conv' dict_get_def split: option.splits)
next
  case True
  show ?thesis
  proof (cases "map_of (matrix_data m) r")
    case None
    with assms True have "m' = m"
      by (auto simp: set_element_def split: if_splits)
    with None True show ?thesis by (auto simp: entry_def)
  next
    case (Some row)
    show ?thesis
    proof (cases "contains_key c row")
      case no: False
      with assms True Some have "m' = m"
        by (auto simp: set_element_def split: if_splits)
      with Some True no show ?thesis
        by (auto simp: entry_def not_contains_key_map_of)
    next
      case yes: True
      show ?thesis
      proof (cases "AList.delete c row = []")
        case empty: True
        with assms True Some yes
        have "matrix_data m' = AList.delete r (matrix_data m)"
          by (auto simp: set_element_def split: if_splits)
        with Some empty show ?thesis using True
          by (auto simp: entry_def delete_conv' delete_eq_Nil_map_of)
      next
        case nonempty: False
        with assms True Some yes
        have "matrix_data m' = AList.update r (AList.delete c row) (matrix_data m)"
          by (auto simp: set_element_def split: if_splits)
        with Some show ?thesis using True
          by (auto simp: entry_def update_conv' delete_conv')
      qed
    qed
  qed
qed

lemma set_element_cell:
  "set_element m r c v = Inr m' \<Longrightarrow>
     cell m' r' c' = (if r' = r \<and> c' = c then v else cell m r' c')"
  by (simp add: cell_def set_element_entry)

lemma well_formed_row:
  "well_formed m \<Longrightarrow> map_of (matrix_data m) r = Some row \<Longrightarrow>
     0 \<le> r \<and> r < rows m \<and> distinct (map fst row) \<and>
     list_all (\<lambda>(c, v). 0 \<le> c \<and> c < cols m \<and> v \<noteq> 0) row"
  by (auto simp: well_formed_def dest: list_all_map_of)

lemma set_element_well_formed:
  assumes wf: "well_formed m" and set: "set_element m r c v = Inr m'"
  shows "well_formed m'"
proof -
  have ib: "in_bounds m r c" using set by (rule set_element_in_bounds)
  have dims: "rows m' = rows m" "cols m' = cols m"
    using set_element_dims [OF set] by simp_all
  let ?P = "\<lambda>(r, row). 0 \<le> r \<and> r < rows m \<and> distinct (map fst row) \<and>
                  list_all (\<lambda>(c, v). 0 \<le> c \<and> c < cols m \<and> v \<noteq> 0) row"
  have all: "list_all ?P (matrix_data m)" and dist: "distinct (map fst (matrix_data m))"
    using wf by (simp_all add: well_formed_def)
  have row: "distinct (map fst (dict_get (matrix_data m) r [])) \<and>
      list_all (\<lambda>(c, v). 0 \<le> c \<and> c < cols m \<and> v \<noteq> 0) (dict_get (matrix_data m) r [])"
    using well_formed_row [OF wf, of r] by (auto simp: dict_get_def split: option.splits)
  have "distinct (map fst (matrix_data m')) \<and> list_all ?P (matrix_data m')"
  proof (cases "v = 0")
    case False
    with set ib have md: "matrix_data m' =
        AList.update r (AList.update c v (dict_get (matrix_data m) r [])) (matrix_data m)"
      by (auto simp: set_element_def split: if_splits)
    have "?P (r, AList.update c v (dict_get (matrix_data m) r []))"
      using row ib False by (auto simp: in_bounds_def distinct_update intro!: list_all_update)
    then show ?thesis unfolding md using all dist
      by (auto simp: distinct_update intro!: list_all_update)
  next
    case True
    show ?thesis
    proof (cases "map_of (matrix_data m) r")
      case None
      with set True ib have "m' = m" by (auto simp: set_element_def split: if_splits)
      then show ?thesis using all dist by simp
    next
      case (Some rw)
      have rw: "distinct (map fst rw) \<and>
          list_all (\<lambda>(c, v). 0 \<le> c \<and> c < cols m \<and> v \<noteq> 0) rw"
        using row Some by (simp add: dict_get_def)
      from set True ib Some
      have "m' = m \<or> matrix_data m' = AList.delete r (matrix_data m) \<or>
            matrix_data m' = AList.update r (AList.delete c rw) (matrix_data m)"
        by (auto simp: set_element_def Let_def split: if_splits)
      moreover have "?P (r, AList.delete c rw)"
        using rw ib by (auto simp: in_bounds_def distinct_delete intro!: list_all_delete)
      ultimately show ?thesis using all dist
        by (auto simp: distinct_update distinct_delete
                 intro!: list_all_update list_all_delete)
    qed
  qed
  then show ?thesis using wf dims by (simp add: well_formed_def)
qed

section \<open>The loops of the binary operations\<close>

lemma evolves_refl: "evolves p h h"
  by (simp add: evolves_def)

lemma evolves_trans: "evolves p h h1 \<Longrightarrow> evolves p h1 h2 \<Longrightarrow> evolves p h h2"
  by (simp add: evolves_def)

lemma set_element_at_evolves:
  assumes "p < length h" and "set_element_at h p r c v = (x, h')"
  shows "evolves p h h'"
proof (cases "set_element (h ! p) r c v")
  case (Inl e)
  with assms have "h' = h" by (simp add: set_element_at_def)
  then show ?thesis by (simp add: evolves_refl)
next
  case (Inr m)
  with assms have "h' = h[p := m]" by (simp add: set_element_at_def)
  then show ?thesis
    using assms(1) set_element_dims [OF Inr] set_element_well_formed [OF _ Inr]
    by (auto simp: evolves_def)
qed

lemma set_element_at_ok:
  assumes "p < length h" and "in_bounds (h ! p) r c"
  shows "\<exists>h'. set_element_at h p r c v = (None, h') \<and>
           (\<forall>r' c'. cell (h' ! p) r' c' = (if r' = r \<and> c' = c then v else cell (h ! p) r' c'))"
proof -
  from set_element_succeeds [OF assms(2)]
  obtain m where m: "set_element (h ! p) r c v = Inr m" by blast
  then have "set_element_at h p r c v = (None, h[p := m])"
    by (simp add: set_element_at_def)
  then show ?thesis using assms(1) set_element_cell [OF m] by simp
qed

lemma combine_cols_evolves:
  "p < length h \<Longrightarrow> combine_cols h p f r items = (x, h') \<Longrightarrow> evolves p h h'"
proof (induction items arbitrary: h)
  case Nil
  then show ?case by (simp add: evolves_refl)
next
  case (Cons a items)
  obtain c v where a: "a = (c, v)" by (cases a)
  show ?case
  proof (cases "get_element_at h p r c")
    case (Inl e)
    with Cons.prems a show ?thesis by (simp add: evolves_refl)
  next
    case (Inr cur)
    obtain y h1 where s: "set_element_at h p r c (f cur v) = (y, h1)" by force
    have e1: "evolves p h h1" using Cons.prems(1) s by (rule set_element_at_evolves)
    show ?thesis
    proof (cases y)
      case (Some e)
      with Cons.prems a Inr s e1 show ?thesis by simp
    next
      case None
      with Cons.prems a Inr s have "combine_cols h1 p f r items = (x, h')" by simp
      moreover have "p < length h1" using e1 Cons.prems(1) by (simp add: evolves_def)
      ultimately have "evolves p h1 h'" by (rule Cons.IH [rotated])
      with e1 show ?thesis by (rule evolves_trans)
    qed
  qed
qed

lemma combine_cols_cells:
  assumes "p < length h" and "0 \<le> r" and "r < rows (h ! p)"
    and "list_all (\<lambda>(c, v). 0 \<le> c \<and> c < cols (h ! p)) items"
    and "distinct (map fst items)"
  shows "\<exists>h'. combine_cols h p f r items = (None, h') \<and>
           (\<forall>r' c'. cell (h' ! p) r' c' =
              (if r' = r
               then (case map_of items c' of
                       None \<Rightarrow> cell (h ! p) r c'
                     | Some v \<Rightarrow> f (cell (h ! p) r c') v)
               else cell (h ! p) r' c'))"
  using assms
proof (induction items arbitrary: h)
  case Nil
  then show ?case by simp
next
  case (Cons a items)
  obtain c v where a: "a = (c, v)" by (cases a)
  have ib: "in_bounds (h ! p) r c"
    using Cons.prems a by (simp add: in_bounds_def)
  then have g: "get_element_at h p r c = Inr (cell (h ! p) r c)"
    by (simp add: get_element_at_def get_element_cell)
  from set_element_at_ok [OF Cons.prems(1) ib, of "f (cell (h ! p) r c) v"]
  obtain h1 where s: "set_element_at h p r c (f (cell (h ! p) r c) v) = (None, h1)"
    and c1: "\<And>r' c'. cell (h1 ! p) r' c' =
               (if r' = r \<and> c' = c then f (cell (h ! p) r c) v else cell (h ! p) r' c')"
    by blast
  have e1: "evolves p h h1" using Cons.prems(1) s by (rule set_element_at_evolves)
  then have p1: "p < length h1" and d1: "rows (h1 ! p) = rows (h ! p)"
    "cols (h1 ! p) = cols (h ! p)"
    using Cons.prems(1) by (simp_all add: evolves_def)
  have "\<exists>h'. combine_cols h1 p f r items = (None, h') \<and>
           (\<forall>r' c'. cell (h' ! p) r' c' =
              (if r' = r
               then (case map_of items c' of
                       None \<Rightarrow> cell (h1 ! p) r c'
                     | Some v \<Rightarrow> f (cell (h1 ! p) r c') v)
               else cell (h1 ! p) r' c'))"
    using Cons.prems a p1 d1 by (intro Cons.IH) simp_all
  then obtain h' where run: "combine_cols h1 p f r items = (None, h')"
    and c2: "\<And>r' c'. cell (h' ! p) r' c' =
              (if r' = r
               then (case map_of items c' of
                       None \<Rightarrow> cell (h1 ! p) r c'
                     | Some v \<Rightarrow> f (cell (h1 ! p) r c') v)
               else cell (h1 ! p) r' c')"
    by blast
  have notin: "map_of items c = None"
    using Cons.prems(5) a by (simp add: map_of_eq_None_iff)
  have "combine_cols h p f r (a # items) = (None, h')"
    using a g s run by simp
  moreover have "cell (h' ! p) r' c' =
              (if r' = r
               then (case map_of (a # items) c' of
                       None \<Rightarrow> cell (h ! p) r c'
                     | Some v \<Rightarrow> f (cell (h ! p) r c') v)
               else cell (h ! p) r' c')" for r' c'
    using a notin by (auto simp: c2 c1 split: option.splits)
  ultimately show ?case by blast
qed

lemma copy_cols_combine:
  "copy_cols h p r items = combine_cols h p (\<lambda>current_val val. val) r items"
proof (induction items arbitrary: h)
  case Nil
  show ?case by simp
next
  case (Cons a items)
  obtain c v where a: "a = (c, v)" by (cases a)
  show ?case
  proof (cases "in_bounds (h ! p) r c")
    case True
    then show ?thesis
      using Cons.IH a by (simp add: get_element_at_def get_element_cell split: prod.splits option.splits)
  next
    case False
    then show ?thesis
      using a by (simp add: get_element_at_def get_element_cell set_element_at_def
          set_element_fails)
  qed
qed

lemma multiply_inner_combine:
  "multiply_inner h p r1 val1 items =
     combine_cols h p (\<lambda>current_val val2. current_val + val1 * val2) r1 items"
  by (induction items arbitrary: h) (auto split: sum.splits prod.splits option.splits)

lemma combine_rows_evolves:
  "p < length h \<Longrightarrow> combine_rows h p f items = (x, h') \<Longrightarrow> evolves p h h'"
proof (induction items arbitrary: h)
  case Nil
  then show ?case by (simp add: evolves_refl)
next
  case (Cons a items)
  obtain r row where a: "a = (r, row)" by (cases a)
  obtain y h1 where s: "combine_cols h p f r row = (y, h1)" by force
  have e1: "evolves p h h1" using Cons.prems(1) s by (rule combine_cols_evolves)
  show ?case
  proof (cases y)
    case (Some e)
    with Cons.prems a s e1 show ?thesis by simp
  next
    case None
    with Cons.prems a s have "combine_rows h1 p f items = (x, h')" by simp
    moreover have "p < length h1" using e1 Cons.prems(1) by (simp add: evolves_def)
    ultimately have "evolves p h1 h'" by (rule Cons.IH [rotated])
    with e1 show ?thesis by (rule evolves_trans)
  qed
qed

lemma within_weaken:
  "list_all (\<lambda>(c, v). 0 \<le> c \<and> c < nc \<and> v \<noteq> (0::int)) row \<Longrightarrow>
     list_all (\<lambda>(c, v). 0 \<le> c \<and> c < (nc::int)) row"
  by (auto simp: list_all_iff)

lemma combine_rows_cells:
  assumes "p < length h"
    and "items_within (rows (h ! p)) (cols (h ! p)) items"
    and "distinct (map fst items)"
  shows "\<exists>h'. combine_rows h p f items = (None, h') \<and>
           (\<forall>r' c'. cell (h' ! p) r' c' =
              (case map_of items r' of
                 None \<Rightarrow> cell (h ! p) r' c'
               | Some row \<Rightarrow>
                   (case map_of row c' of
                      None \<Rightarrow> cell (h ! p) r' c'
                    | Some v \<Rightarrow> f (cell (h ! p) r' c') v)))"
  using assms
proof (induction items arbitrary: h)
  case Nil
  then show ?case by simp
next
  case (Cons a items)
  obtain r row where a: "a = (r, row)" by (cases a)
  have row: "0 \<le> r" "r < rows (h ! p)" "distinct (map fst row)"
    "list_all (\<lambda>(c, v). 0 \<le> c \<and> c < cols (h ! p)) row"
    using Cons.prems(2) a by (simp_all add: within_weaken)
  from combine_cols_cells [OF Cons.prems(1) row(1,2,4,3), of f]
  obtain h1 where s: "combine_cols h p f r row = (None, h1)"
    and c1: "\<And>r' c'. cell (h1 ! p) r' c' =
              (if r' = r
               then (case map_of row c' of
                       None \<Rightarrow> cell (h ! p) r c'
                     | Some v \<Rightarrow> f (cell (h ! p) r c') v)
               else cell (h ! p) r' c')"
    by blast
  have e1: "evolves p h h1" using Cons.prems(1) s by (rule combine_cols_evolves)
  then have p1: "p < length h1" and d1: "rows (h1 ! p) = rows (h ! p)"
    "cols (h1 ! p) = cols (h ! p)"
    using Cons.prems(1) by (simp_all add: evolves_def)
  have "\<exists>h'. combine_rows h1 p f items = (None, h') \<and>
           (\<forall>r' c'. cell (h' ! p) r' c' =
              (case map_of items r' of
                 None \<Rightarrow> cell (h1 ! p) r' c'
               | Some row \<Rightarrow>
                   (case map_of row c' of
                      None \<Rightarrow> cell (h1 ! p) r' c'
                    | Some v \<Rightarrow> f (cell (h1 ! p) r' c') v)))"
    using Cons.prems a p1 d1 by (intro Cons.IH) simp_all
  then obtain h' where run: "combine_rows h1 p f items = (None, h')"
    and c2: "\<And>r' c'. cell (h' ! p) r' c' =
              (case map_of items r' of
                 None \<Rightarrow> cell (h1 ! p) r' c'
               | Some row \<Rightarrow>
                   (case map_of row c' of
                      None \<Rightarrow> cell (h1 ! p) r' c'
                    | Some v \<Rightarrow> f (cell (h1 ! p) r' c') v))"
    by blast
  have notin: "map_of items r = None"
    using Cons.prems(3) a by (simp add: map_of_eq_None_iff)
  have "combine_rows h p f (a # items) = (None, h')"
    using a s run by simp
  moreover have "cell (h' ! p) r' c' =
              (case map_of (a # items) r' of
                 None \<Rightarrow> cell (h ! p) r' c'
               | Some row \<Rightarrow>
                   (case map_of row c' of
                      None \<Rightarrow> cell (h ! p) r' c'
                    | Some v \<Rightarrow> f (cell (h ! p) r' c') v))" for r' c'
    using a notin by (auto simp: c2 c1 split: option.splits)
  ultimately show ?case by blast
qed

lemma copy_rows_combine:
  "copy_rows h p items = combine_rows h p (\<lambda>current_val val. val) items"
  by (induction items arbitrary: h)
     (auto simp: copy_cols_combine split: prod.splits option.splits)

section \<open>\<open>operate\<close>, \<open>add\<close> and \<open>subtract\<close>\<close>

lemma init_dimensions_ok:
  assumes "0 \<le> nr" and "0 \<le> nc"
  shows "\<exists>m. init_dimensions nr nc = Inr m \<and> rows m = nr \<and> cols m = nc \<and>
           matrix_data m = [] \<and> well_formed m \<and> (\<forall>r c. cell m r c = 0)"
  using assms
  by (simp add: init_dimensions_def blank_matrix_def well_formed_def cell_def entry_def)

lemma evolves_frame:
  "evolves p h1 h2 \<Longrightarrow> q \<noteq> p \<Longrightarrow> h2 ! q = h1 ! q"
  by (simp add: evolves_def)

lemma operate_cells:
  assumes self: "self < length h" and other: "other < length h"
    and wfa: "well_formed (h ! self)" and wfb: "well_formed (h ! other)"
    and dims: "rows (h ! self) = rows (h ! other)" "cols (h ! self) = cols (h ! other)"
  shows "\<exists>h'. operate h self other f = (Inr (length h), h') \<and>
           length h' = Suc (length h) \<and> (\<forall>q<length h. h' ! q = h ! q) \<and>
           rows (h' ! length h) = rows (h ! self) \<and>
           cols (h' ! length h) = cols (h ! self) \<and>
           well_formed (h' ! length h) \<and>
           (\<forall>r c. cell (h' ! length h) r c =
              (case entry (h ! other) r c of
                 None \<Rightarrow> cell (h ! self) r c
               | Some v \<Rightarrow> f (cell (h ! self) r c) v))"
proof -
  let ?p = "length h"
  have nonneg: "0 \<le> rows (h ! self)" "0 \<le> cols (h ! self)"
    using wfa by (simp_all add: well_formed_def)
  from init_dimensions_ok [OF nonneg]
  obtain m0 where m0: "init_dimensions (rows (h ! self)) (cols (h ! self)) = Inr m0"
    and m0d: "rows m0 = rows (h ! self)" "cols m0 = cols (h ! self)"
    and m0wf: "well_formed m0" and m0c: "\<And>r c. cell m0 r c = 0"
    by blast
  let ?h1 = "h @ [m0]"
  have new: "new_matrix h (rows (h ! self)) (cols (h ! self)) = (Inr ?p, ?h1)"
    by (simp add: new_matrix_def m0)
  have p1: "?p < length ?h1" and h1p: "?h1 ! ?p = m0" by simp_all
  have h1s: "?h1 ! self = h ! self" and h1o: "?h1 ! other = h ! other"
    using self other by (simp_all add: nth_append)
  have ia: "items_within (rows (?h1 ! ?p)) (cols (?h1 ! ?p)) (matrix_data (h ! self))"
    and da: "distinct (map fst (matrix_data (h ! self)))"
    using wfa m0d by (simp_all add: well_formed_def)
  from combine_rows_cells [OF p1 ia da, of "\<lambda>current_val val. val"]
  obtain h2 where run1: "copy_rows ?h1 ?p (matrix_data (h ! self)) = (None, h2)"
    and c2: "\<And>r c. cell (h2 ! ?p) r c =
               (case map_of (matrix_data (h ! self)) r of
                  None \<Rightarrow> cell (?h1 ! ?p) r c
                | Some row \<Rightarrow>
                    (case map_of row c of None \<Rightarrow> cell (?h1 ! ?p) r c | Some v \<Rightarrow> v))"
    unfolding copy_rows_combine by blast
  have e12: "evolves ?p ?h1 h2"
    using p1 run1 unfolding copy_rows_combine by (rule combine_rows_evolves)
  have c2': "cell (h2 ! ?p) r c = cell (h ! self) r c" for r c
  proof -
    have "cell (h2 ! ?p) r c =
        (case map_of (matrix_data (h ! self)) r of
           None \<Rightarrow> 0
         | Some row \<Rightarrow> (case map_of row c of None \<Rightarrow> 0 | Some v \<Rightarrow> v))"
      by (simp only: c2 h1p m0c)
    also have "\<dots> = cell (h ! self) r c"
      by (simp add: cell_def entry_def split: option.splits)
    finally show ?thesis .
  qed
  have p2: "?p < length h2" and d2: "rows (h2 ! ?p) = rows (h ! self)"
    "cols (h2 ! ?p) = cols (h ! self)" and wf2: "well_formed (h2 ! ?p)"
    using e12 m0d m0wf by (simp_all add: evolves_def)
  have h2o: "h2 ! other = h ! other" and h2len: "length h2 = Suc (length h)"
    using evolves_frame [OF e12, of other] other h1o e12 by (simp_all add: evolves_def)
  have ib: "items_within (rows (h2 ! ?p)) (cols (h2 ! ?p)) (matrix_data (h ! other))"
    and db: "distinct (map fst (matrix_data (h ! other)))"
    using wfb d2 dims by (simp_all add: well_formed_def)
  from combine_rows_cells [OF p2 ib db, of f]
  obtain h3 where run2: "combine_rows h2 ?p f (matrix_data (h ! other)) = (None, h3)"
    and c3: "\<And>r c. cell (h3 ! ?p) r c =
               (case map_of (matrix_data (h ! other)) r of
                  None \<Rightarrow> cell (h2 ! ?p) r c
                | Some row \<Rightarrow>
                    (case map_of row c of
                       None \<Rightarrow> cell (h2 ! ?p) r c
                     | Some v \<Rightarrow> f (cell (h2 ! ?p) r c) v))"
    by blast
  have e23: "evolves ?p h2 h3" using p2 run2 by (rule combine_rows_evolves)
  have c3': "cell (h3 ! ?p) r c =
      (case entry (h ! other) r c of
         None \<Rightarrow> cell (h ! self) r c
       | Some v \<Rightarrow> f (cell (h ! self) r c) v)" for r c
    by (simp add: c3 c2' entry_def split: option.splits)
  have frame: "h3 ! q = h ! q" if "q < length h" for q
  proof -
    have "q \<noteq> ?p" using that by simp
    then have "h3 ! q = ?h1 ! q"
      using evolves_frame [OF e23] evolves_frame [OF e12] by simp
    then show ?thesis using that by (simp add: nth_append)
  qed
  have "operate h self other f = (Inr ?p, h3)"
    using dims new run1 run2 h1s h2o by (simp add: operate_def)
  moreover have "length h3 = Suc (length h)" using e23 h2len by (simp add: evolves_def)
  moreover have "rows (h3 ! ?p) = rows (h ! self)" "cols (h3 ! ?p) = cols (h ! self)"
    "well_formed (h3 ! ?p)"
    using e23 d2 wf2 by (simp_all add: evolves_def)
  ultimately show ?thesis using frame c3' by blast
qed

lemma operate_mismatch:
  "rows (h ! self) \<noteq> rows (h ! other) \<or> cols (h ! self) \<noteq> cols (h ! other) \<Longrightarrow>
     operate h self other f =
       (Inl (ValueError ''Matrices must have the same dimensions for this operation.''), h)"
  by (simp add: operate_def)

lemma cell_entry_add: "(case entry b r c of None \<Rightarrow> x | Some v \<Rightarrow> x + v) = x + cell b r c"
  by (simp add: cell_def split: option.splits)

lemma cell_entry_sub: "(case entry b r c of None \<Rightarrow> x | Some v \<Rightarrow> x - v) = x - cell b r c"
  by (simp add: cell_def split: option.splits)

text \<open>
  C1. Let \<open>self\<close> and \<open>other\<close> refer to well-formed matrices of the store. If they have the
  same numbers of rows and of columns, \<open>add\<close> and \<open>subtract\<close> return a new matrix of these
  dimensions, and wherever \<open>get_element\<close> returns \<open>a\<close> on the first operand and \<open>b\<close> on the
  second, which it does at every position inside the dimensions, it returns \<open>a + b\<close> on
  the sum and \<open>a - b\<close> on the difference. If the dimensions differ, both raise the
  \<open>ValueError\<close> of the dimension check and the store is the one before the call.
\<close>

theorem add_subtract_pointwise:
  assumes "self < length h" and "other < length h"
    and "well_formed (h ! self)" and "well_formed (h ! other)"
  shows "if rows (h ! self) = rows (h ! other) \<and> cols (h ! self) = cols (h ! other)
         then (\<exists>s d hs hd.
                 add h self other = (Inr s, hs) \<and> subtract h self other = (Inr d, hd) \<and>
                 s = length h \<and> d = length h \<and>
                 rows (hs ! s) = rows (h ! self) \<and> cols (hs ! s) = cols (h ! self) \<and>
                 rows (hd ! d) = rows (h ! self) \<and> cols (hd ! d) = cols (h ! self) \<and>
                 (\<forall>r c. in_bounds (h ! self) r c \<longrightarrow>
                    (\<exists>a b. get_element (h ! self) r c = Inr a \<and>
                           get_element (h ! other) r c = Inr b \<and>
                           get_element (hs ! s) r c = Inr (a + b) \<and>
                           get_element (hd ! d) r c = Inr (a - b))))
         else add h self other =
                (Inl (ValueError ''Matrices must have the same dimensions for this operation.''), h)
              \<and> subtract h self other =
                (Inl (ValueError ''Matrices must have the same dimensions for this operation.''), h)"
proof (cases "rows (h ! self) = rows (h ! other) \<and> cols (h ! self) = cols (h ! other)")
  case False
  then have "rows (h ! self) \<noteq> rows (h ! other) \<or> cols (h ! self) \<noteq> cols (h ! other)"
    by blast
  from operate_mismatch [OF this] False show ?thesis
    by (simp add: add_def subtract_def)
next
  case True
  then have dims: "rows (h ! self) = rows (h ! other)" "cols (h ! self) = cols (h ! other)"
    by simp_all
  from operate_cells [OF assms dims, of "\<lambda>x y. x + y"]
  obtain hs where s: "add h self other = (Inr (length h), hs)"
    and sd: "rows (hs ! length h) = rows (h ! self)" "cols (hs ! length h) = cols (h ! self)"
    and sc: "\<And>r c. cell (hs ! length h) r c = cell (h ! self) r c + cell (h ! other) r c"
    unfolding add_def cell_entry_add by blast
  from operate_cells [OF assms dims, of "\<lambda>x y. x - y"]
  obtain hd where d: "subtract h self other = (Inr (length h), hd)"
    and dd: "rows (hd ! length h) = rows (h ! self)" "cols (hd ! length h) = cols (h ! self)"
    and dc: "\<And>r c. cell (hd ! length h) r c = cell (h ! self) r c - cell (h ! other) r c"
    unfolding subtract_def cell_entry_sub by blast
  have "get_element (h ! self) r c = Inr (cell (h ! self) r c) \<and>
        get_element (h ! other) r c = Inr (cell (h ! other) r c) \<and>
        get_element (hs ! length h) r c = Inr (cell (h ! self) r c + cell (h ! other) r c) \<and>
        get_element (hd ! length h) r c = Inr (cell (h ! self) r c - cell (h ! other) r c)"
    if "in_bounds (h ! self) r c" for r c
    using that dims sd dd by (simp add: get_element_cell in_bounds_def sc dc)
  then show ?thesis using True s d sd dd by auto
qed

theorem add_subtract_pointwise_witness:
  "well_formed five_at_origin \<and> well_formed three_at_origin \<and>
   init_file [''a'' \<mapsto> ''rows=1\<newline>cols=1\<newline>(0,0,5)\<newline>''] ''a'' = Inr five_at_origin \<and>
   init_file [''b'' \<mapsto> ''rows=1\<newline>cols=1\<newline>(0,0,3)\<newline>''] ''b'' = Inr three_at_origin \<and>
   (\<exists>s d hs hd.
      add [five_at_origin, three_at_origin] 0 1 = (Inr s, hs) \<and>
      subtract [five_at_origin, three_at_origin] 0 1 = (Inr d, hd) \<and>
      get_element (hs ! s) 0 0 = Inr 8 \<and> get_element (hd ! d) 0 0 = Inr 2 \<and>
      get_element (hs ! s) 1 1 = Inr 0)"
proof -
  have wf: "well_formed five_at_origin" "well_formed three_at_origin"
    by (simp_all add: well_formed_def five_at_origin_def three_at_origin_def)
  have files:
    "init_file [''a'' \<mapsto> ''rows=1\<newline>cols=1\<newline>(0,0,5)\<newline>''] ''a'' = Inr five_at_origin"
    "init_file [''b'' \<mapsto> ''rows=1\<newline>cols=1\<newline>(0,0,3)\<newline>''] ''b'' = Inr three_at_origin"
    by code_simp+
  have g: "get_element five_at_origin 0 0 = Inr 5" "get_element three_at_origin 0 0 = Inr 3"
    "get_element five_at_origin 1 1 = Inr 0" "get_element three_at_origin 1 1 = Inr 0"
    "in_bounds five_at_origin 0 0" "in_bounds five_at_origin 1 1"
    "rows five_at_origin = rows three_at_origin" "cols five_at_origin = cols three_at_origin"
    by (simp_all add: get_element_def in_bounds_def dict_get_def five_at_origin_def
        three_at_origin_def)
  have "(0::nat) < length [five_at_origin, three_at_origin]"
    "(1::nat) < length [five_at_origin, three_at_origin]"
    "well_formed ([five_at_origin, three_at_origin] ! 0)"
    "well_formed ([five_at_origin, three_at_origin] ! 1)"
    using wf by simp_all
  from add_subtract_pointwise [OF this]
  obtain s d hs hd where
    "add [five_at_origin, three_at_origin] 0 1 = (Inr s, hs)"
    "subtract [five_at_origin, three_at_origin] 0 1 = (Inr d, hd)"
    "\<forall>r c. in_bounds five_at_origin r c \<longrightarrow>
            (\<exists>a b. get_element five_at_origin r c = Inr a \<and>
                   get_element three_at_origin r c = Inr b \<and>
                   get_element (hs ! s) r c = Inr (a + b) \<and>
                   get_element (hd ! d) r c = Inr (a - b))"
    using g(7,8) by auto
  then show ?thesis using wf files g by fastforce
qed

section \<open>\<open>multiply\<close>\<close>

lemma multiply_cols_evolves:
  "p < length h \<Longrightarrow> multiply_cols h p other r1 items = (x, h') \<Longrightarrow> evolves p h h'"
proof (induction items arbitrary: h)
  case Nil
  then show ?case by (simp add: evolves_refl)
next
  case (Cons a items)
  obtain c1 val1 where a: "a = (c1, val1)" by (cases a)
  let ?step = "if contains_key c1 (matrix_data (h ! other))
            then (case dict_getitem (matrix_data (h ! other)) c1 of
                    Inl e \<Rightarrow> (Some e, h)
                  | Inr row_data2 \<Rightarrow> multiply_inner h p r1 val1 row_data2)
            else (None, h)"
  obtain y h1 where s: "?step = (y, h1)" by force
  have e1: "evolves p h h1"
    using s Cons.prems(1)
    by (auto simp: evolves_refl multiply_inner_combine
             split: if_splits sum.splits intro: combine_cols_evolves)
  show ?case
  proof (cases y)
    case (Some e)
    with Cons.prems a s e1 show ?thesis by simp
  next
    case None
    with Cons.prems a s have "multiply_cols h1 p other r1 items = (x, h')" by simp
    moreover have "p < length h1" using e1 Cons.prems(1) by (simp add: evolves_def)
    ultimately have "evolves p h1 h'" by (rule Cons.IH [rotated])
    with e1 show ?thesis by (rule evolves_trans)
  qed
qed

lemma multiply_rows_evolves:
  "p < length h \<Longrightarrow> multiply_rows h p other items = (x, h') \<Longrightarrow> evolves p h h'"
proof (induction items arbitrary: h)
  case Nil
  then show ?case by (simp add: evolves_refl)
next
  case (Cons a items)
  obtain r1 row1 where a: "a = (r1, row1)" by (cases a)
  obtain y h1 where s: "multiply_cols h p other r1 row1 = (y, h1)" by force
  have e1: "evolves p h h1" using Cons.prems(1) s by (rule multiply_cols_evolves)
  show ?case
  proof (cases y)
    case (Some e)
    with Cons.prems a s e1 show ?thesis by simp
  next
    case None
    with Cons.prems a s have "multiply_rows h1 p other items = (x, h')" by simp
    moreover have "p < length h1" using e1 Cons.prems(1) by (simp add: evolves_def)
    ultimately have "evolves p h1 h'" by (rule Cons.IH [rotated])
    with e1 show ?thesis by (rule evolves_trans)
  qed
qed

text \<open>One turn of the middle loop adds \<open>val1\<close> times the row \<open>c1\<close> of the other matrix.\<close>

lemma multiply_step:
  assumes p: "p < length h" and r1: "0 \<le> r1" "r1 < rows (h ! p)"
    and b: "items_within nr (cols (h ! p)) (matrix_data (h ! other))"
  shows "\<exists>h'. (if contains_key c1 (matrix_data (h ! other))
               then (case dict_getitem (matrix_data (h ! other)) c1 of
                       Inl e \<Rightarrow> (Some e, h)
                     | Inr row_data2 \<Rightarrow> multiply_inner h p r1 val1 row_data2)
               else (None, h)) = (None, h') \<and> evolves p h h' \<and>
           (\<forall>r' c'. cell (h' ! p) r' c' =
              cell (h ! p) r' c' + (if r' = r1 then val1 * cell (h ! other) c1 c' else 0))"
proof (cases "map_of (matrix_data (h ! other)) c1")
  case None
  then have "\<not> contains_key c1 (matrix_data (h ! other))"
    by (simp add: contains_key_def map_of_eq_None_iff)
  moreover have "cell (h ! other) c1 c' = 0" for c'
    using None by (simp add: cell_def entry_def)
  ultimately show ?thesis by (simp add: evolves_refl)
next
  case (Some row2)
  then have ck: "contains_key c1 (matrix_data (h ! other))"
    by (auto simp: contains_key_def dest: map_of_SomeD intro: rev_image_eqI)
  have gi: "dict_getitem (matrix_data (h ! other)) c1 = Inr row2"
    using Some by (simp add: dict_getitem_def)
  have row2: "distinct (map fst row2)" "list_all (\<lambda>(c, v). 0 \<le> c \<and> c < cols (h ! p)) row2"
    using list_all_map_of [OF b Some] by (simp_all add: within_weaken)
  from combine_cols_cells [OF p r1 row2(2,1), of "\<lambda>current_val val2. current_val + val1 * val2"]
  obtain h' where run: "multiply_inner h p r1 val1 row2 = (None, h')"
    and c: "\<And>r' c'. cell (h' ! p) r' c' =
              (if r' = r1
               then (case map_of row2 c' of
                       None \<Rightarrow> cell (h ! p) r1 c'
                     | Some v \<Rightarrow> cell (h ! p) r1 c' + val1 * v)
               else cell (h ! p) r' c')"
    unfolding multiply_inner_combine by blast
  have e: "evolves p h h'"
    using p run unfolding multiply_inner_combine by (rule combine_cols_evolves)
  have "cell (h' ! p) r' c' =
      cell (h ! p) r' c' + (if r' = r1 then val1 * cell (h ! other) c1 c' else 0)" for r' c'
  proof -
    have "cell (h ! other) c1 c' = (case map_of row2 c' of None \<Rightarrow> 0 | Some v \<Rightarrow> v)"
      using Some by (simp add: cell_def entry_def)
    then show ?thesis by (simp add: c split: option.splits)
  qed
  then show ?thesis using ck gi run e by simp
qed

lemma multiply_cols_cells:
  assumes "p < length h" and "other \<noteq> p" and "0 \<le> r1" and "r1 < rows (h ! p)"
    and "items_within nr (cols (h ! p)) (matrix_data (h ! other))"
  shows "\<exists>h'. multiply_cols h p other r1 items = (None, h') \<and>
           (\<forall>r' c'. cell (h' ! p) r' c' =
              cell (h ! p) r' c' +
              (if r' = r1
               then (\<Sum>(c1, val1)\<leftarrow>items. val1 * cell (h ! other) c1 c') else 0))"
  using assms
proof (induction items arbitrary: h)
  case Nil
  then show ?case by simp
next
  case (Cons a items)
  obtain c1 val1 where a: "a = (c1, val1)" by (cases a)
  from multiply_step [OF Cons.prems(1,3,4,5), of c1 val1]
  obtain h1 where s: "(if contains_key c1 (matrix_data (h ! other))
               then (case dict_getitem (matrix_data (h ! other)) c1 of
                       Inl e \<Rightarrow> (Some e, h)
                     | Inr row_data2 \<Rightarrow> multiply_inner h p r1 val1 row_data2)
               else (None, h)) = (None, h1)"
    and e1: "evolves p h h1"
    and c1: "\<And>r' c'. cell (h1 ! p) r' c' =
              cell (h ! p) r' c' + (if r' = r1 then val1 * cell (h ! other) c1 c' else 0)"
    by blast
  have p1: "p < length h1" and d1: "rows (h1 ! p) = rows (h ! p)"
    "cols (h1 ! p) = cols (h ! p)" and o1: "h1 ! other = h ! other"
    using e1 Cons.prems(1,2) by (simp_all add: evolves_def)
  have "\<exists>h'. multiply_cols h1 p other r1 items = (None, h') \<and>
           (\<forall>r' c'. cell (h' ! p) r' c' =
              cell (h1 ! p) r' c' +
              (if r' = r1
               then (\<Sum>(c1, val1)\<leftarrow>items. val1 * cell (h1 ! other) c1 c') else 0))"
    using Cons.prems p1 d1 o1 by (intro Cons.IH) simp_all
  then obtain h' where run: "multiply_cols h1 p other r1 items = (None, h')"
    and c2: "\<And>r' c'. cell (h' ! p) r' c' =
              cell (h1 ! p) r' c' +
              (if r' = r1
               then (\<Sum>(c1, val1)\<leftarrow>items. val1 * cell (h ! other) c1 c') else 0)"
    unfolding o1 by blast
  have "multiply_cols h p other r1 (a # items) = (None, h')"
    using a s run by simp
  moreover have "cell (h' ! p) r' c' =
              cell (h ! p) r' c' +
              (if r' = r1
               then (\<Sum>(c1, val1)\<leftarrow>a # items. val1 * cell (h ! other) c1 c') else 0)"
    for r' c'
    using a by (simp add: c2 c1)
  ultimately show ?case by blast
qed

lemma multiply_rows_cells:
  assumes "p < length h" and "other \<noteq> p"
    and "list_all (\<lambda>(r, row). 0 \<le> r \<and> r < rows (h ! p)) items"
    and "items_within nr (cols (h ! p)) (matrix_data (h ! other))"
  shows "\<exists>h'. multiply_rows h p other items = (None, h') \<and>
           (\<forall>r' c'. cell (h' ! p) r' c' =
              cell (h ! p) r' c' +
              (\<Sum>(r1, row1)\<leftarrow>items.
                 if r' = r1
                 then (\<Sum>(c1, val1)\<leftarrow>row1. val1 * cell (h ! other) c1 c') else 0))"
  using assms
proof (induction items arbitrary: h)
  case Nil
  then show ?case by simp
next
  case (Cons a items)
  obtain r1 row1 where a: "a = (r1, row1)" by (cases a)
  have r1: "0 \<le> r1" "r1 < rows (h ! p)" using Cons.prems(3) a by simp_all
  from multiply_cols_cells [OF Cons.prems(1,2) r1 Cons.prems(4), of row1]
  obtain h1 where s: "multiply_cols h p other r1 row1 = (None, h1)"
    and c1: "\<And>r' c'. cell (h1 ! p) r' c' =
              cell (h ! p) r' c' +
              (if r' = r1
               then (\<Sum>(c1, val1)\<leftarrow>row1. val1 * cell (h ! other) c1 c') else 0)"
    by blast
  have e1: "evolves p h h1" using Cons.prems(1) s by (rule multiply_cols_evolves)
  have p1: "p < length h1" and d1: "rows (h1 ! p) = rows (h ! p)"
    "cols (h1 ! p) = cols (h ! p)" and o1: "h1 ! other = h ! other"
    using e1 Cons.prems(1,2) by (simp_all add: evolves_def)
  have "\<exists>h'. multiply_rows h1 p other items = (None, h') \<and>
           (\<forall>r' c'. cell (h' ! p) r' c' =
              cell (h1 ! p) r' c' +
              (\<Sum>(r1, row1)\<leftarrow>items.
                 if r' = r1
                 then (\<Sum>(c1, val1)\<leftarrow>row1. val1 * cell (h1 ! other) c1 c') else 0))"
    using Cons.prems a p1 d1 o1 by (intro Cons.IH) simp_all
  then obtain h' where run: "multiply_rows h1 p other items = (None, h')"
    and c2: "\<And>r' c'. cell (h' ! p) r' c' =
              cell (h1 ! p) r' c' +
              (\<Sum>(r1, row1)\<leftarrow>items.
                 if r' = r1
                 then (\<Sum>(c1, val1)\<leftarrow>row1. val1 * cell (h ! other) c1 c') else 0)"
    unfolding o1 by blast
  have "multiply_rows h p other (a # items) = (None, h')"
    using a s run by simp
  moreover have "cell (h' ! p) r' c' =
              cell (h ! p) r' c' +
              (\<Sum>(r1, row1)\<leftarrow>a # items.
                 if r' = r1
                 then (\<Sum>(c1, val1)\<leftarrow>row1. val1 * cell (h ! other) c1 c') else 0)"
    for r' c'
    using a by (simp add: c2 c1)
  ultimately show ?case by blast
qed

lemma sum_list_key:
  "distinct (map fst items) \<Longrightarrow>
     (\<Sum>(k, x)\<leftarrow>items. if r = k then g x else (0::int)) =
     (case map_of items r of None \<Rightarrow> 0 | Some x \<Rightarrow> g x)"
proof (induction items)
  case Nil
  show ?case by simp
next
  case (Cons a items)
  obtain k x where a: "a = (k, x)" by (cases a)
  have "map_of items k = None" using Cons.prems a by (simp add: map_of_eq_None_iff)
  then show ?case using Cons a by auto
qed

lemma sum_list_row:
  "distinct (map fst row) \<Longrightarrow> list_all (\<lambda>(c, v). 0 \<le> c \<and> c < (n::int)) row \<Longrightarrow>
     (\<Sum>(k, v)\<leftarrow>row. v * g k) =
     (\<Sum>k = 0..<n. (case map_of row k of None \<Rightarrow> 0 | Some v \<Rightarrow> v) * (g k :: int))"
proof (induction row)
  case Nil
  show ?case by simp
next
  case (Cons a row)
  obtain k0 v0 where a: "a = (k0, v0)" by (cases a)
  have none: "map_of row k0 = None" using Cons.prems a by (simp add: map_of_eq_None_iff)
  have k0: "k0 \<in> {0..<n}" using Cons.prems a by simp
  have "(\<Sum>k = 0..<n. (case map_of (a # row) k of None \<Rightarrow> 0 | Some v \<Rightarrow> v) * g k) =
        (\<Sum>k = 0..<n. (if k = k0 then v0 * g k0 else 0) +
                       (case map_of row k of None \<Rightarrow> 0 | Some v \<Rightarrow> v) * g k)"
    using a none by (intro sum.cong) auto
  also have "\<dots> = v0 * g k0 + (\<Sum>k = 0..<n. (case map_of row k of None \<Rightarrow> 0 | Some v \<Rightarrow> v) * g k)"
  proof -
    have "(\<Sum>k = 0..<n. if k = k0 then v0 * g k0 else 0) = v0 * g k0"
      using k0 sum.delta [of "{0..<n}" k0 "\<lambda>k. v0 * g k0"] by simp
    then show ?thesis by (simp add: sum.distrib)
  qed
  finally show ?case using Cons a by simp
qed

lemma multiply_cells:
  assumes self: "self < length h" and other: "other < length h"
    and wfa: "well_formed (h ! self)" and wfb: "well_formed (h ! other)"
    and dims: "cols (h ! self) = rows (h ! other)"
  shows "\<exists>h'. multiply h self other = (Inr (length h), h') \<and>
           length h' = Suc (length h) \<and> (\<forall>q<length h. h' ! q = h ! q) \<and>
           rows (h' ! length h) = rows (h ! self) \<and>
           cols (h' ! length h) = cols (h ! other) \<and>
           well_formed (h' ! length h) \<and>
           (\<forall>r c. cell (h' ! length h) r c =
              (\<Sum>k = 0..<cols (h ! self). cell (h ! self) r k * cell (h ! other) k c))"
proof -
  let ?p = "length h"
  let ?A = "h ! self" and ?B = "h ! other"
  have nonneg: "0 \<le> rows ?A" "0 \<le> cols ?B"
    using wfa wfb by (simp_all add: well_formed_def)
  from init_dimensions_ok [OF nonneg]
  obtain m0 where m0: "init_dimensions (rows ?A) (cols ?B) = Inr m0"
    and m0d: "rows m0 = rows ?A" "cols m0 = cols ?B"
    and m0wf: "well_formed m0" and m0c: "\<And>r c. cell m0 r c = 0"
    by blast
  let ?h1 = "h @ [m0]"
  have new: "new_matrix h (rows ?A) (cols ?B) = (Inr ?p, ?h1)"
    by (simp add: new_matrix_def m0)
  have p1: "?p < length ?h1" and h1p: "?h1 ! ?p = m0" by simp_all
  have h1s: "?h1 ! self = ?A" and h1o: "?h1 ! other = ?B" and op: "other \<noteq> ?p"
    using self other by (simp_all add: nth_append)
  have ia: "list_all (\<lambda>(r, row). 0 \<le> r \<and> r < rows (?h1 ! ?p)) (matrix_data ?A)"
    using wfa m0d by (auto simp: well_formed_def list_all_iff)
  have ib: "items_within (rows ?B) (cols (?h1 ! ?p)) (matrix_data (?h1 ! other))"
    using wfb m0d h1o by (simp add: well_formed_def)
  from multiply_rows_cells [OF p1 op ia ib]
  obtain h2 where run: "multiply_rows ?h1 ?p other (matrix_data ?A) = (None, h2)"
    and c2: "\<And>r c. cell (h2 ! ?p) r c =
              cell (?h1 ! ?p) r c +
              (\<Sum>(r1, row1)\<leftarrow>matrix_data ?A.
                 if r = r1
                 then (\<Sum>(c1, val1)\<leftarrow>row1. val1 * cell (?h1 ! other) c1 c) else 0)"
    by blast
  have e: "evolves ?p ?h1 h2" using p1 run by (rule multiply_rows_evolves)
  have da: "distinct (map fst (matrix_data ?A))" using wfa by (simp add: well_formed_def)
  have cells: "cell (h2 ! ?p) r c = (\<Sum>k = 0..<cols ?A. cell ?A r k * cell ?B k c)" for r c
  proof -
    have "cell (h2 ! ?p) r c =
        (\<Sum>(r1, row1)\<leftarrow>matrix_data ?A.
           if r = r1 then (\<Sum>(c1, val1)\<leftarrow>row1. val1 * cell ?B c1 c) else 0)"
      by (simp only: c2 h1p m0c h1o)
    also have "\<dots> = (case map_of (matrix_data ?A) r of
                       None \<Rightarrow> 0
                     | Some row1 \<Rightarrow> (\<Sum>(c1, val1)\<leftarrow>row1. val1 * cell ?B c1 c))"
      using da by (rule sum_list_key)
    also have "\<dots> = (\<Sum>k = 0..<cols ?A. cell ?A r k * cell ?B k c)"
    proof (cases "map_of (matrix_data ?A) r")
      case None
      then show ?thesis by (simp add: cell_def entry_def)
    next
      case (Some row1)
      from well_formed_row [OF wfa Some]
      have "distinct (map fst row1)" "list_all (\<lambda>(c, v). 0 \<le> c \<and> c < cols ?A) row1"
        by (simp_all add: within_weaken)
      from sum_list_row [OF this, of "\<lambda>k. cell ?B k c"] Some
      show ?thesis by (simp add: cell_def entry_def)
    qed
    finally show ?thesis .
  qed
  have frame: "h2 ! q = h ! q" if "q < length h" for q
  proof -
    have "q \<noteq> ?p" using that by simp
    then have "h2 ! q = ?h1 ! q" using evolves_frame [OF e] by simp
    then show ?thesis using that by (simp add: nth_append)
  qed
  have "multiply h self other = (Inr ?p, h2)"
    using dims new run h1s by (simp add: multiply_def)
  moreover have "length h2 = Suc (length h)" using e by (simp add: evolves_def)
  moreover have "rows (h2 ! ?p) = rows ?A" "cols (h2 ! ?p) = cols ?B" "well_formed (h2 ! ?p)"
    using e m0d m0wf by (simp_all add: evolves_def)
  ultimately show ?thesis using frame cells by blast
qed

text \<open>
  C2. Let \<open>self\<close> and \<open>other\<close> refer to well-formed matrices \<open>A\<close> and \<open>B\<close> of the store. If
  \<open>A\<close> has as many columns as \<open>B\<close> has rows, \<open>multiply\<close> returns a new matrix with the rows
  of \<open>A\<close> and the columns of \<open>B\<close>, and at every position \<open>(r, c)\<close> inside these dimensions
  \<open>get_element\<close> returns the sum over \<open>k\<close> from 0 below the columns of \<open>A\<close> of
  \<open>A(r, k) * B(k, c)\<close>, where \<open>A(r, k)\<close> is \<open>cell A r k\<close>, the value \<open>get_element\<close> returns
  on \<open>A\<close>. Otherwise \<open>multiply\<close> raises the \<open>ValueError\<close> of the dimension check. For the
  example operands the product holds 11 at \<open>(0, 0)\<close> and nothing else.
\<close>

theorem multiply_row_by_column:
  "(self < length h \<and> other < length h \<and>
    well_formed (h ! self) \<and> well_formed (h ! other) \<longrightarrow>
    (if cols (h ! self) = rows (h ! other)
     then (\<exists>p h'. multiply h self other = (Inr p, h') \<and> p = length h \<and>
             rows (h' ! p) = rows (h ! self) \<and> cols (h' ! p) = cols (h ! other) \<and>
             (\<forall>r c. 0 \<le> r \<and> r < rows (h ! self) \<and> 0 \<le> c \<and> c < cols (h ! other) \<longrightarrow>
                get_element (h' ! p) r c =
                  Inr (\<Sum>k = 0..<cols (h ! self). cell (h ! self) r k * cell (h ! other) k c)) \<and>
             (\<forall>r k. 0 \<le> r \<and> r < rows (h ! self) \<and> 0 \<le> k \<and> k < cols (h ! self) \<longrightarrow>
                get_element (h ! self) r k = Inr (cell (h ! self) r k)) \<and>
             (\<forall>k c. 0 \<le> k \<and> k < rows (h ! other) \<and> 0 \<le> c \<and> c < cols (h ! other) \<longrightarrow>
                get_element (h ! other) k c = Inr (cell (h ! other) k c)))
     else multiply h self other =
            (Inl (ValueError ''Incompatible dimensions for matrix multiplication.''), h)))
   \<and> (\<exists>p h'. multiply [example_A, example_B] 0 1 = (Inr p, h') \<and>
         rows (h' ! p) = 2 \<and> cols (h' ! p) = 2 \<and>
         matrix_data (h' ! p) = [(0, [(0, 11)])] \<and>
         get_element (h' ! p) 0 0 = Inr 11 \<and> get_element (h' ! p) 0 1 = Inr 0 \<and>
         get_element (h' ! p) 1 0 = Inr 0 \<and> get_element (h' ! p) 1 1 = Inr 0)"
proof (intro conjI impI)
  assume a: "self < length h \<and> other < length h \<and>
    well_formed (h ! self) \<and> well_formed (h ! other)"
  show "if cols (h ! self) = rows (h ! other)
     then (\<exists>p h'. multiply h self other = (Inr p, h') \<and> p = length h \<and>
             rows (h' ! p) = rows (h ! self) \<and> cols (h' ! p) = cols (h ! other) \<and>
             (\<forall>r c. 0 \<le> r \<and> r < rows (h ! self) \<and> 0 \<le> c \<and> c < cols (h ! other) \<longrightarrow>
                get_element (h' ! p) r c =
                  Inr (\<Sum>k = 0..<cols (h ! self). cell (h ! self) r k * cell (h ! other) k c)) \<and>
             (\<forall>r k. 0 \<le> r \<and> r < rows (h ! self) \<and> 0 \<le> k \<and> k < cols (h ! self) \<longrightarrow>
                get_element (h ! self) r k = Inr (cell (h ! self) r k)) \<and>
             (\<forall>k c. 0 \<le> k \<and> k < rows (h ! other) \<and> 0 \<le> c \<and> c < cols (h ! other) \<longrightarrow>
                get_element (h ! other) k c = Inr (cell (h ! other) k c)))
     else multiply h self other =
            (Inl (ValueError ''Incompatible dimensions for matrix multiplication.''), h)"
  proof (cases "cols (h ! self) = rows (h ! other)")
    case False
    then show ?thesis by (simp add: multiply_def)
  next
    case True
    from a have a': "self < length h" "other < length h"
      "well_formed (h ! self)" "well_formed (h ! other)" by simp_all
    from multiply_cells [OF a' True]
    obtain h' where "multiply h self other = (Inr (length h), h')"
      "rows (h' ! length h) = rows (h ! self)" "cols (h' ! length h) = cols (h ! other)"
      "\<And>r c. cell (h' ! length h) r c =
              (\<Sum>k = 0..<cols (h ! self). cell (h ! self) r k * cell (h ! other) k c)"
      by blast
    then show ?thesis using True
      by (auto simp: get_element_cell in_bounds_def)
  qed
next
  show "\<exists>p h'. multiply [example_A, example_B] 0 1 = (Inr p, h') \<and>
         rows (h' ! p) = 2 \<and> cols (h' ! p) = 2 \<and>
         matrix_data (h' ! p) = [(0, [(0, 11)])] \<and>
         get_element (h' ! p) 0 0 = Inr 11 \<and> get_element (h' ! p) 0 1 = Inr 0 \<and>
         get_element (h' ! p) 1 0 = Inr 0 \<and> get_element (h' ! p) 1 1 = Inr 0"
  proof -
    have "multiply [example_A, example_B] 0 1 =
       (Inr 2, [example_A, example_B,
                \<lparr>matrix_data = [(0, [(0, 11)])], file_declared_max_row = 1,
                 file_declared_max_col = 1, rows = 2, cols = 2\<rparr>])"
      by code_simp
    then show ?thesis
      by (simp add: get_element_def in_bounds_def dict_get_def)
  qed
qed

theorem multiply_row_by_column_witness:
  "well_formed example_A \<and> well_formed example_B \<and> cols example_A = rows example_B \<and>
   (\<exists>p h'. multiply [example_A, example_B] 0 1 = (Inr p, h') \<and>
      rows (h' ! p) = 2 \<and> cols (h' ! p) = 2 \<and>
      get_element (h' ! p) 0 0 = Inr (1 * 3 + 2 * 4) \<and>
      get_element (h' ! p) 1 0 = Inr (0 * 3 + 0 * 4))"
proof -
  have wf: "well_formed example_A" "well_formed example_B"
    by (simp_all add: well_formed_def example_A_def example_B_def)
  have d: "cols example_A = rows example_B" "rows example_A = 2" "cols example_B = 2"
    "cols example_A = 2"
    by (simp_all add: example_A_def example_B_def)
  have two: "{0..<2::int} = {0, 1}" by auto
  have cells: "cell example_A 0 0 = 1" "cell example_A 0 1 = 2" "cell example_B 0 0 = 3"
    "cell example_B 1 0 = 4" "cell example_A 1 0 = 0" "cell example_A 1 1 = 0"
    by (simp_all add: cell_def entry_def example_A_def example_B_def)
  have "(0::nat) < length [example_A, example_B] \<and> (1::nat) < length [example_A, example_B] \<and>
    well_formed ([example_A, example_B] ! 0) \<and> well_formed ([example_A, example_B] ! 1)"
    using wf by simp
  with multiply_row_by_column [of 0 "[example_A, example_B]" 1]
  obtain p h' where "multiply [example_A, example_B] 0 1 = (Inr p, h')"
    "rows (h' ! p) = 2" "cols (h' ! p) = 2"
    "\<forall>r c. 0 \<le> r \<and> r < 2 \<and> 0 \<le> c \<and> c < 2 \<longrightarrow>
        get_element (h' ! p) r c = Inr (\<Sum>k = 0..<2. cell example_A r k * cell example_B k c)"
    using d by auto
  then show ?thesis using wf d cells by (auto simp: two)
qed

section \<open>The operands of a binary operation\<close>

lemma new_matrix_cases:
  "new_matrix h nr nc = (x, h1) \<Longrightarrow>
     (\<exists>e. x = Inl e \<and> h1 = h) \<or> (\<exists>m. x = Inr (length h) \<and> h1 = h @ [m])"
  by (auto simp: new_matrix_def split: sum.splits)

lemma evolves_extends:
  assumes "evolves (length h) (h @ [m]) h'"
  shows "take (length h) h' = h \<and> length h' = Suc (length h)"
proof -
  have len: "length h' = Suc (length h)" using assms by (simp add: evolves_def)
  have "h' ! q = h ! q" if "q < length h" for q
    using assms that by (simp add: evolves_def nth_append)
  then have "take (length h) h' = h"
    using len by (intro nth_equalityI) simp_all
  then show ?thesis using len by simp
qed

lemma operate_frame:
  assumes "operate h self other f = (x, h')"
  shows "take (length h) h' = h \<and> (\<forall>p. x = Inr p \<longrightarrow> p = length h \<and> length h' = Suc (length h))"
proof (cases "rows (h ! self) \<noteq> rows (h ! other) \<or> cols (h ! self) \<noteq> cols (h ! other)")
  case True
  from operate_mismatch [OF this, of f] assms show ?thesis by auto
next
  case False
  obtain y h1 where new: "new_matrix h (rows (h ! self)) (cols (h ! self)) = (y, h1)"
    by force
  from new_matrix_cases [OF new] show ?thesis
  proof (elim disjE exE conjE)
    fix e assume "y = Inl e" "h1 = h"
    with assms False new show ?thesis by (auto simp: operate_def)
  next
    fix m assume y: "y = Inr (length h)" and h1: "h1 = h @ [m]"
    let ?p = "length h"
    obtain z h2 where c: "copy_rows h1 ?p (matrix_data (h1 ! self)) = (z, h2)" by force
    have e12: "evolves ?p h1 h2"
      using c h1 unfolding copy_rows_combine by (intro combine_rows_evolves) simp_all
    show ?thesis
    proof (cases z)
      case (Some e)
      with assms False new y c have "x = Inl e" "h' = h2" by (simp_all add: operate_def)
      then show ?thesis using evolves_extends e12 h1 by simp
    next
      case None
      obtain w h3 where k: "combine_rows h2 ?p f (matrix_data (h2 ! other)) = (w, h3)"
        by force
      have "?p < length h2" using e12 h1 by (simp add: evolves_def)
      then have "evolves ?p h2 h3" using k by (rule combine_rows_evolves)
      with e12 have e13: "evolves ?p (h @ [m]) h3" unfolding h1 by (rule evolves_trans)
      have "h' = h3" "x = Inr ?p \<or> (\<exists>e. x = Inl e)"
        using assms False new y c None k
        by (auto simp: operate_def split: option.splits)
      then show ?thesis using evolves_extends [OF e13] by auto
    qed
  qed
qed

lemma multiply_frame:
  assumes "multiply h self other = (x, h')"
  shows "take (length h) h' = h \<and> (\<forall>p. x = Inr p \<longrightarrow> p = length h \<and> length h' = Suc (length h))"
proof (cases "cols (h ! self) \<noteq> rows (h ! other)")
  case True
  with assms show ?thesis by (auto simp: multiply_def)
next
  case False
  obtain y h1 where new: "new_matrix h (rows (h ! self)) (cols (h ! other)) = (y, h1)"
    by force
  from new_matrix_cases [OF new] show ?thesis
  proof (elim disjE exE conjE)
    fix e assume "y = Inl e" "h1 = h"
    with assms False new show ?thesis by (auto simp: multiply_def)
  next
    fix m assume y: "y = Inr (length h)" and h1: "h1 = h @ [m]"
    let ?p = "length h"
    obtain z h2 where c: "multiply_rows h1 ?p other (matrix_data (h1 ! self)) = (z, h2)"
      by force
    have e12: "evolves ?p (h @ [m]) h2"
      using c h1 by (intro multiply_rows_evolves [of _ _ other "matrix_data (h1 ! self)" z]) simp_all
    have "h' = h2" "x = Inr ?p \<or> (\<exists>e. x = Inl e)"
      using assms False new y c by (auto simp: multiply_def split: option.splits)
    then show ?thesis using evolves_extends [OF e12] by auto
  qed
qed

text \<open>
  C8. Let \<open>run\<close> be \<open>add\<close>, \<open>subtract\<close> or \<open>multiply\<close>, called on two references into the
  store. Whether it returns a reference or an exception, the store it leaves holds every
  object it held before, unchanged, so both operands have the fields they had. A
  returned reference is a new one: it is neither operand and the store has grown by that
  one object.
\<close>

theorem operands_unchanged:
  assumes "self < length h" and "other < length h"
    and "run = add \<or> run = subtract \<or> run = multiply"
    and "run h self other = (x, h')"
  shows "h' ! self = h ! self \<and> h' ! other = h ! other \<and> take (length h) h' = h \<and>
         (\<forall>p. x = Inr p \<longrightarrow> p \<noteq> self \<and> p \<noteq> other \<and> p = length h \<and>
                length h' = Suc (length h))"
proof -
  have fr: "take (length h) h' = h \<and>
      (\<forall>p. x = Inr p \<longrightarrow> p = length h \<and> length h' = Suc (length h))"
    using assms(3,4) operate_frame [of h self other _ x h'] multiply_frame [of h self other x h']
    by (auto simp: add_def subtract_def)
  then have "take (length h) h' ! q = h ! q" for q by simp
  then have "h' ! q = h ! q" if "q < length h" for q using that by (metis nth_take)
  then show ?thesis using fr assms(1,2) by auto
qed

theorem operands_unchanged_witness:
  "(0::nat) < length [example_A, example_B] \<and> (1::nat) < length [example_A, example_B] \<and>
   (\<exists>p h'. multiply [example_A, example_B] 0 1 = (Inr p, h') \<and>
      h' ! 0 = example_A \<and> h' ! 1 = example_B \<and> p = 2 \<and> length h' = 3) \<and>
   (\<exists>e h'. add [example_A, blank_matrix] 0 1 = (Inl e, h') \<and>
      h' ! 0 = example_A \<and> h' ! 1 = blank_matrix)"
proof -
  obtain x h' where m: "multiply [example_A, example_B] 0 1 = (x, h')" by force
  have "multiply [example_A, example_B] 0 1 =
       (Inr 2, [example_A, example_B,
                \<lparr>matrix_data = [(0, [(0, 11)])], file_declared_max_row = 1,
                 file_declared_max_col = 1, rows = 2, cols = 2\<rparr>])"
    by code_simp
  with m have x: "x = Inr 2" by simp
  have 1: "h' ! 0 = example_A \<and> h' ! 1 = example_B \<and> length h' = 3"
    using operands_unchanged [of 0 "[example_A, example_B]" 1 multiply x h'] m x by simp
  obtain y k where a: "add [example_A, blank_matrix] 0 1 = (y, k)" by force
  have "add [example_A, blank_matrix] 0 1 =
      (Inl (ValueError ''Matrices must have the same dimensions for this operation.''),
       [example_A, blank_matrix])"
    by code_simp
  with a have y: "\<exists>e. y = Inl e" by simp
  have 2: "k ! 0 = example_A \<and> k ! 1 = blank_matrix"
    using operands_unchanged [of 0 "[example_A, blank_matrix]" 1 add y k] a by simp
  show ?thesis using 1 2 m x a y by auto
qed

section \<open>The parser keeps the matrix well formed\<close>

lemma validate_and_set_dimension_Inr:
  assumes "validate_and_set_dimension self val_str line_num raw_line dim_type = Inr self'"
  shows "\<exists>d. is_valid_int val_str \<and> int_literal val_str = Inr d \<and> - 1 \<le> d \<and>
           self' = (if dim_type = ''row''
                    then self\<lparr>file_declared_max_row := d, rows := d + 1\<rparr>
                    else self\<lparr>file_declared_max_col := d, cols := d + 1\<rparr>)"
  using assms
  by (auto simp: validate_and_set_dimension_def split: if_splits sum.splits)

lemma header_line_Inr:
  "header_line self line line_num raw_line dim_type = Inr self' \<longleftrightarrow>
     header_try self line line_num raw_line dim_type = Inr self'"
  by (auto simp: header_line_def split: sum.splits if_splits option.splits)

lemma header_try_Inr:
  assumes "header_try self line line_num raw_line dim_type = Inr self'"
  shows "\<exists>s. getitem (split (CHR ''='') line) 1 = Inr s \<and>
           validate_and_set_dimension self (strip s) line_num raw_line dim_type = Inr self'"
  using assms by (auto simp: header_try_def split: sum.splits)

lemma data_line_Inr:
  assumes "data_line self line line_num = Inr self'"
  shows "\<exists>parts r c v. parts = map strip (split (CHR '','') (strip (slice_1_m1 line))) \<and>
           length parts = 3 \<and> list_all is_valid_int parts \<and>
           int_literal (parts ! 0) = Inr r \<and> int_literal (parts ! 1) = Inr c \<and>
           int_literal (parts ! 2) = Inr v \<and> in_bounds self r c \<and>
           set_element self r c v = Inr self'"
  using assms
  by (auto simp: data_line_def Let_def in_bounds_def split: if_splits sum.splits)

text \<open>The cases in which one turn of the loop goes on to the next line.\<close>

lemma parse_line_Inr:
  assumes "parse_line (self, pr, pc) line_num raw_line = Inr st'"
  shows "(strip raw_line = [] \<and> st' = (self, pr, pc)) \<or>
         (strip raw_line \<noteq> [] \<and> startswith (strip raw_line) ''rows='' \<and> \<not> pr \<and>
            (\<exists>self'. header_try self (strip raw_line) line_num raw_line ''row'' = Inr self' \<and>
               st' = (self', True, pc))) \<or>
         (strip raw_line \<noteq> [] \<and> \<not> startswith (strip raw_line) ''rows='' \<and>
            startswith (strip raw_line) ''cols='' \<and> \<not> pc \<and>
            (\<exists>self'. header_try self (strip raw_line) line_num raw_line ''col'' = Inr self' \<and>
               st' = (self', pr, True))) \<or>
         (strip raw_line \<noteq> [] \<and> \<not> startswith (strip raw_line) ''rows='' \<and>
            \<not> startswith (strip raw_line) ''cols='' \<and>
            startswith (strip raw_line) ''('' \<and> endswith (strip raw_line) '')'' \<and> pr \<and> pc \<and>
            (\<exists>self'. data_line self (strip raw_line) line_num = Inr self' \<and>
               st' = (self', pr, pc)))"
  using assms
  by (simp add: parse_line_def Let_def header_line_Inr [symmetric]
           split: if_splits sum.splits)

lemma parse_line_parsing:
  assumes "parsing st" and "parse_line st line_num raw_line = Inr st'"
  shows "parsing st'"
proof -
  obtain self pr pc where st: "st = (self, pr, pc)" by (cases st)
  have wf: "well_formed self" and empty: "\<not> (pr \<and> pc) \<Longrightarrow> matrix_data self = []"
    using assms(1) st by (simp_all add: parsing_def)
  from parse_line_Inr [OF assms(2) [unfolded st]]
  show ?thesis
  proof (elim disjE conjE exE)
    assume "st' = (self, pr, pc)"
    then show ?thesis using assms(1) st by simp
  next
    fix self' assume npr: "\<not> pr"
      and h: "header_try self (strip raw_line) line_num raw_line ''row'' = Inr self'"
      and st': "st' = (self', True, pc)"
    from header_try_Inr [OF h] validate_and_set_dimension_Inr
    obtain d where "- 1 \<le> d" "self' = self\<lparr>file_declared_max_row := d, rows := d + 1\<rparr>"
      by fastforce
    then show ?thesis using st' wf empty npr by (simp add: parsing_def well_formed_def)
  next
    fix self' assume npc: "\<not> pc"
      and h: "header_try self (strip raw_line) line_num raw_line ''col'' = Inr self'"
      and st': "st' = (self', pr, True)"
    from header_try_Inr [OF h] validate_and_set_dimension_Inr
    obtain d where "- 1 \<le> d" "self' = self\<lparr>file_declared_max_col := d, cols := d + 1\<rparr>"
      by fastforce
    then show ?thesis using st' wf empty npc by (simp add: parsing_def well_formed_def)
  next
    fix self' assume "pr" "pc"
      and d: "data_line self (strip raw_line) line_num = Inr self'"
      and st': "st' = (self', pr, pc)"
    from data_line_Inr [OF d] obtain r c v where "set_element self r c v = Inr self'"
      by blast
    from set_element_well_formed [OF wf this] show ?thesis
      using st' \<open>pr\<close> \<open>pc\<close> by (simp add: parsing_def)
  qed
qed

lemma parse_lines_parsing:
  "parsing st \<Longrightarrow> parse_lines st line_num ls = Inr st' \<Longrightarrow> parsing st'"
proof (induction ls arbitrary: st line_num)
  case Nil
  then show ?case by simp
next
  case (Cons l ls)
  then show ?case
    by (auto split: sum.splits dest: parse_line_parsing)
qed

lemma parse_file_Inr:
  assumes "parse_file self fs file_path = Inr self'"
  shows "\<exists>content. fs file_path = Some content \<and>
           parse_lines (self\<lparr>file_declared_max_row := - 2, file_declared_max_col := - 2\<rparr>,
                        False, False) 0 (readlines content) = Inr (self', True, True)"
  using assms
  by (auto simp: parse_file_def split: option.splits sum.splits if_splits)

lemma init_file_well_formed:
  assumes "init_file fs source = Inr m"
  shows "well_formed m"
proof -
  from parse_file_Inr [OF assms [unfolded init_file_def]]
  obtain content where
    p: "parse_lines (blank_matrix\<lparr>file_declared_max_row := - 2, file_declared_max_col := - 2\<rparr>,
                        False, False) 0 (readlines content) = Inr (m, True, True)"
    by blast
  have "parsing (blank_matrix\<lparr>file_declared_max_row := - 2, file_declared_max_col := - 2\<rparr>,
                 False, False)"
    by (simp add: parsing_def well_formed_def blank_matrix_def)
  from parse_lines_parsing [OF this p] show ?thesis by (simp add: parsing_def)
qed

lemma well_formed_entry:
  assumes "well_formed m" and "entry m r c = Some v"
  shows "v \<noteq> 0 \<and> in_bounds m r c"
proof -
  from assms(2) obtain row where row: "map_of (matrix_data m) r = Some row"
    and v: "map_of row c = Some v"
    by (auto simp: entry_def split: option.splits)
  from well_formed_row [OF assms(1) row]
  have "0 \<le> r" "r < rows m" "list_all (\<lambda>(c, v). 0 \<le> c \<and> c < cols m \<and> v \<noteq> 0) row"
    by simp_all
  with list_all_map_of [OF _ v, of "\<lambda>(c, v). 0 \<le> c \<and> c < cols m \<and> v \<noteq> 0"]
  show ?thesis by (simp add: in_bounds_def)
qed

lemma header_try_matrix_data:
  "header_try self line line_num raw_line dim_type = Inr self' \<Longrightarrow>
     matrix_data self' = matrix_data self"
  by (auto dest!: header_try_Inr validate_and_set_dimension_Inr split: if_splits)

lemma binary_result_well_formed:
  assumes "self < length h" and "other < length h"
    and "well_formed (h ! self)" and "well_formed (h ! other)"
    and "run = add \<or> run = subtract \<or> run = multiply"
    and "run h self other = (Inr p, h')"
  shows "well_formed (h' ! p)"
proof -
  consider f where "run = (\<lambda>h a b. operate h a b f)" | "run = multiply"
    using assms(5) by (auto simp: add_def subtract_def fun_eq_iff)
  then show ?thesis
  proof cases
    case 1
    have dims: "rows (h ! self) = rows (h ! other)" "cols (h ! self) = cols (h ! other)"
      using assms(6) 1 operate_mismatch [of h self other f] by auto
    from operate_cells [OF assms(1-4) dims, of f] assms(6) 1 show ?thesis by auto
  next
    case 2
    have dims: "cols (h ! self) = rows (h ! other)"
      using assms(6) 2 by (auto simp: multiply_def split: if_splits)
    from multiply_cells [OF assms(1-4) dims] assms(6) 2 show ?thesis by auto
  qed
qed

text \<open>
  C4. A matrix built by \<open>SparseMatrix(rows, cols)\<close> or read from a file is well formed;
  \<open>set_element\<close> takes a well-formed matrix to a well-formed one, and with the value 0 it
  leaves no entry at the position; a header line of a file leaves the entries as they
  are; the result of \<open>add\<close>, \<open>subtract\<close> and \<open>multiply\<close> on well-formed operands is well
  formed. In a well-formed matrix no stored entry is 0 and every stored entry lies at a
  row in \<open>[0, rows)\<close> and a column in \<open>[0, cols)\<close>.
\<close>

theorem invariant_kept:
  "(init_dimensions nr nc = Inr m1 \<longrightarrow> well_formed m1) \<and>
   (init_file fs source = Inr m2 \<longrightarrow> well_formed m2) \<and>
   (well_formed m \<and> set_element m r c v = Inr m' \<longrightarrow> well_formed m') \<and>
   (set_element m r c 0 = Inr m0 \<longrightarrow> entry m0 r c = None) \<and>
   (header_try m line line_num raw_line dim_type = Inr m3 \<longrightarrow>
      matrix_data m3 = matrix_data m) \<and>
   (self < length h \<and> other < length h \<and>
    well_formed (h ! self) \<and> well_formed (h ! other) \<and>
    (run = add \<or> run = subtract \<or> run = multiply) \<and>
    run h self other = (Inr p, h') \<longrightarrow> well_formed (h' ! p)) \<and>
   (well_formed m \<longrightarrow>
      (\<forall>i j x. entry m i j = Some x \<longrightarrow>
         x \<noteq> 0 \<and> 0 \<le> i \<and> i < rows m \<and> 0 \<le> j \<and> j < cols m))"
proof (intro conjI impI allI)
  assume "init_dimensions nr nc = Inr m1"
  then show "well_formed m1"
    by (auto simp: init_dimensions_def blank_matrix_def well_formed_def split: if_splits)
next
  assume "init_file fs source = Inr m2"
  then show "well_formed m2" by (rule init_file_well_formed)
next
  assume "well_formed m \<and> set_element m r c v = Inr m'"
  then show "well_formed m'" using set_element_well_formed by blast
next
  assume "set_element m r c 0 = Inr m0"
  from set_element_entry [OF this, of r c] show "entry m0 r c = None" by simp
next
  assume "header_try m line line_num raw_line dim_type = Inr m3"
  then show "matrix_data m3 = matrix_data m" by (rule header_try_matrix_data)
next
  assume "self < length h \<and> other < length h \<and>
    well_formed (h ! self) \<and> well_formed (h ! other) \<and>
    (run = add \<or> run = subtract \<or> run = multiply) \<and>
    run h self other = (Inr p, h')"
  then show "well_formed (h' ! p)" using binary_result_well_formed by blast
next
  fix i j x assume "well_formed m" "entry m i j = Some x"
  from well_formed_entry [OF this]
  show "x \<noteq> 0" "0 \<le> i" "i < rows m" "0 \<le> j" "j < cols m"
    by (simp_all add: in_bounds_def)
qed

theorem invariant_kept_witness:
  "init_dimensions 2 2 = Inr (three_at_origin\<lparr>matrix_data := []\<rparr>) \<and>
   well_formed (three_at_origin\<lparr>matrix_data := []\<rparr>) \<and>
   init_file [''a'' \<mapsto> ''rows=1\<newline>cols=1\<newline>(0,0,5)\<newline>''] ''a'' = Inr five_at_origin \<and>
   well_formed five_at_origin \<and>
   set_element five_at_origin 1 0 7 =
     Inr (five_at_origin\<lparr>matrix_data := [(0, [(0, 5)]), (1, [(0, 7)])]\<rparr>) \<and>
   well_formed (five_at_origin\<lparr>matrix_data := [(0, [(0, 5)]), (1, [(0, 7)])]\<rparr>) \<and>
   set_element five_at_origin 0 0 0 = Inr (five_at_origin\<lparr>matrix_data := []\<rparr>) \<and>
   entry (five_at_origin\<lparr>matrix_data := []\<rparr>) 0 0 = None \<and>
   header_try blank_matrix ''rows=1'' 0 ''rows=1'' ''row'' =
     Inr (blank_matrix\<lparr>file_declared_max_row := 1, rows := 2\<rparr>) \<and>
   matrix_data (blank_matrix\<lparr>file_declared_max_row := 1, rows := 2\<rparr>) = matrix_data blank_matrix \<and>
   subtract [five_at_origin, three_at_origin] 0 1 =
     (Inr 2, [five_at_origin, three_at_origin, five_at_origin\<lparr>matrix_data := [(0, [(0, 2)])]\<rparr>]) \<and>
   well_formed (five_at_origin\<lparr>matrix_data := [(0, [(0, 2)])]\<rparr>) \<and>
   entry five_at_origin 0 0 = Some 5 \<and> (5::int) \<noteq> 0 \<and> 0 < rows five_at_origin"
proof -
  have 1: "init_dimensions 2 2 = Inr (three_at_origin\<lparr>matrix_data := []\<rparr>)"
    by (simp add: init_dimensions_def blank_matrix_def three_at_origin_def)
  have 2: "init_file [''a'' \<mapsto> ''rows=1\<newline>cols=1\<newline>(0,0,5)\<newline>''] ''a'' = Inr five_at_origin"
    by code_simp
  have wf5: "well_formed five_at_origin"
    using invariant_kept [of _ _ _ "[''a'' \<mapsto> ''rows=1\<newline>cols=1\<newline>(0,0,5)\<newline>'']" "''a''" five_at_origin] 2
    by blast
  have wf3: "well_formed three_at_origin"
    by (simp add: well_formed_def three_at_origin_def)
  have 3: "set_element five_at_origin 1 0 7 =
     Inr (five_at_origin\<lparr>matrix_data := [(0, [(0, 5)]), (1, [(0, 7)])]\<rparr>)"
    by code_simp
  have 4: "set_element five_at_origin 0 0 0 = Inr (five_at_origin\<lparr>matrix_data := []\<rparr>)"
    by code_simp
  have 5: "header_try blank_matrix ''rows=1'' 0 ''rows=1'' ''row'' =
     Inr (blank_matrix\<lparr>file_declared_max_row := 1, rows := 2\<rparr>)"
    by code_simp
  have 6: "subtract [five_at_origin, three_at_origin] 0 1 =
     (Inr 2, [five_at_origin, three_at_origin, five_at_origin\<lparr>matrix_data := [(0, [(0, 2)])]\<rparr>])"
    by code_simp
  have 7: "entry five_at_origin 0 0 = Some 5"
    by (simp add: entry_def five_at_origin_def)
  note k = invariant_kept [of 2 2 "three_at_origin\<lparr>matrix_data := []\<rparr>" _ _ _
      five_at_origin 1 0 7 "five_at_origin\<lparr>matrix_data := [(0, [(0, 5)]), (1, [(0, 7)])]\<rparr>"]
  note k0 = invariant_kept [of _ _ _ _ _ _ five_at_origin 0 0 _ _
      "five_at_origin\<lparr>matrix_data := []\<rparr>"]
  note kh = invariant_kept [of _ _ _ _ _ _ blank_matrix _ _ _ _ _ "''rows=1''" 0 "''rows=1''"
      "''row''" "blank_matrix\<lparr>file_declared_max_row := 1, rows := 2\<rparr>"]
  note kb = invariant_kept [of _ _ _ _ _ _ _ _ _ _ _ _ _ _ _ _ _ 0
      "[five_at_origin, three_at_origin]" 1 subtract 2
      "[five_at_origin, three_at_origin, five_at_origin\<lparr>matrix_data := [(0, [(0, 2)])]\<rparr>]"]
  have a: "well_formed (three_at_origin\<lparr>matrix_data := []\<rparr>)" using k 1 by blast
  have b: "well_formed (five_at_origin\<lparr>matrix_data := [(0, [(0, 5)]), (1, [(0, 7)])]\<rparr>)"
    using k 3 wf5 by blast
  have c: "entry (five_at_origin\<lparr>matrix_data := []\<rparr>) 0 0 = None" using k0 4 by blast
  have d: "matrix_data (blank_matrix\<lparr>file_declared_max_row := 1, rows := 2\<rparr>) =
      matrix_data blank_matrix" using kh 5 by blast
  have e: "well_formed (five_at_origin\<lparr>matrix_data := [(0, [(0, 2)])]\<rparr>)"
    using kb 6 wf5 wf3 by simp
  have f: "(5::int) \<noteq> 0 \<and> 0 < rows five_at_origin"
    using k 7 wf5 by blast
  show ?thesis using 1 2 3 4 5 6 7 a b c d e f wf5 by simp
qed

section \<open>Facts about strings\<close>

lemma lstrip_spaces: "list_all isspace w \<Longrightarrow> lstrip (w @ s) = lstrip s"
  unfolding lstrip_def by (rule dropWhile_append2) (simp add: list_all_iff)

lemma rstrip_spaces: "list_all isspace w \<Longrightarrow> rstrip (s @ w) = rstrip s"
proof -
  assume "list_all isspace w"
  then have "dropWhile isspace (rev w @ rev s) = dropWhile isspace (rev s)"
    by (intro dropWhile_append2) (simp add: list_all_iff)
  then show ?thesis by (simp add: rstrip_def)
qed

lemma lstrip_eq_Nil: "lstrip s = [] \<longleftrightarrow> list_all isspace s"
  by (simp add: lstrip_def list_all_iff)

lemma rstrip_eq_Nil: "rstrip s = [] \<longleftrightarrow> list_all isspace s"
  by (simp add: rstrip_def list_all_iff)

lemma lstrip_decomp: "\<exists>w. s = w @ lstrip s \<and> list_all isspace w"
proof -
  have "s = takeWhile isspace s @ lstrip s" by (simp add: lstrip_def)
  moreover have "list_all isspace (takeWhile isspace s)"
    by (auto simp: list_all_iff dest: set_takeWhileD)
  ultimately show ?thesis by blast
qed

lemma rstrip_decomp: "\<exists>w. s = rstrip s @ w \<and> list_all isspace w"
proof -
  have "rev (takeWhile isspace (rev s) @ dropWhile isspace (rev s)) = rev (rev s)"
    by (simp only: takeWhile_dropWhile_id)
  then have "rev (dropWhile isspace (rev s)) @ rev (takeWhile isspace (rev s)) = s"
    by (simp only: rev_append rev_rev_ident)
  then have "s = rstrip s @ rev (takeWhile isspace (rev s))"
    by (simp only: rstrip_def)
  moreover have "list_all isspace (rev (takeWhile isspace (rev s)))"
    by (auto simp: list_all_iff dest: set_takeWhileD)
  ultimately show ?thesis by blast
qed

lemma strip_decomp:
  "\<exists>w1 w2. s = w1 @ strip s @ w2 \<and> list_all isspace w1 \<and> list_all isspace w2"
proof -
  obtain w1 where 1: "s = w1 @ lstrip s" "list_all isspace w1"
    using lstrip_decomp by blast
  obtain w2 where 2: "lstrip s = rstrip (lstrip s) @ w2" "list_all isspace w2"
    using rstrip_decomp by blast
  have "s = w1 @ strip s @ w2"
    using 1(1) 2(1) by (simp add: strip_def)
  then show ?thesis using 1(2) 2(2) by blast
qed

lemma strip_eq_Nil: "strip s = [] \<longleftrightarrow> list_all isspace s"
proof
  assume "strip s = []"
  with strip_decomp [of s] show "list_all isspace s" by auto
next
  assume "list_all isspace s"
  then show "strip s = []" by (simp add: strip_def lstrip_eq_Nil [THEN iffD2] rstrip_def)
qed

lemma lstrip_append:
  "\<not> list_all isspace s \<Longrightarrow> lstrip (s @ t) = lstrip s @ t"
proof -
  assume "\<not> list_all isspace s"
  then obtain x where "x \<in> set s" "\<not> isspace x" by (auto simp: list_all_iff)
  then show ?thesis unfolding lstrip_def by (rule dropWhile_append1)
qed

lemma strip_spaces:
  assumes "list_all isspace w1" and "list_all isspace w2"
  shows "strip (w1 @ s @ w2) = strip s"
proof (cases "list_all isspace s")
  case True
  with assms have "list_all isspace (w1 @ s @ w2)" by simp
  then have "strip (w1 @ s @ w2) = []" by (simp only: strip_eq_Nil)
  moreover have "strip s = []" using True by (simp only: strip_eq_Nil)
  ultimately show ?thesis by simp
next
  case False
  have "strip (w1 @ s @ w2) = rstrip (lstrip (s @ w2))"
    by (simp add: strip_def lstrip_spaces assms)
  also have "\<dots> = rstrip (lstrip s @ w2)" using False by (simp add: lstrip_append)
  also have "\<dots> = strip s" by (simp add: strip_def rstrip_spaces assms)
  finally show ?thesis .
qed

lemma strip_left: "list_all isspace w \<Longrightarrow> strip (w @ s) = strip s"
  using strip_spaces [of w "[]" s] by simp

lemma strip_right: "list_all isspace w \<Longrightarrow> strip (s @ w) = strip s"
  using strip_spaces [of "[]" w s] by simp

lemma strip_idem: "strip (strip s) = strip s"
proof -
  obtain w1 w2 where d: "s = w1 @ strip s @ w2" and w: "list_all isspace w1" "list_all isspace w2"
    using strip_decomp by blast
  have "strip (w1 @ strip s @ w2) = strip (strip s)" using w by (rule strip_spaces)
  moreover have "strip (w1 @ strip s @ w2) = strip s" using d by (rule arg_cong [symmetric])
  ultimately show ?thesis by simp
qed

lemma lstrip_id: "s \<noteq> [] \<Longrightarrow> \<not> isspace (hd s) \<Longrightarrow> lstrip s = s"
  by (cases s) (simp_all add: lstrip_def)

lemma rstrip_id: "s \<noteq> [] \<Longrightarrow> \<not> isspace (last s) \<Longrightarrow> rstrip s = s"
  by (cases s rule: rev_cases) (simp_all add: rstrip_def)

lemma strip_id: "s \<noteq> [] \<Longrightarrow> \<not> isspace (hd s) \<Longrightarrow> \<not> isspace (last s) \<Longrightarrow> strip s = s"
  by (simp add: strip_def lstrip_id rstrip_id)

lemma strip_Nil: "strip [] = []"
  by (simp add: strip_def lstrip_def rstrip_def)

lemma split_not_Nil: "split sep s \<noteq> []"
  by (induction s) (auto split: list.splits)

lemma split_none: "sep \<notin> set s \<Longrightarrow> split sep s = [s]"
  by (induction s) auto

lemma split_first: "sep \<notin> set a \<Longrightarrow> split sep (a @ sep # b) = a # split sep b"
  by (induction a) auto

lemma universal_newlines_id: "CHR 0x0D \<notin> set t \<Longrightarrow> universal_newlines t = t"
  by (induction t rule: universal_newlines.induct) auto



lemma startswith_Cons: "startswith (c # s) (d # p) \<longleftrightarrow> c = d \<and> startswith s p"
  by (auto simp: startswith_def)

lemma endswith_append: "endswith (s @ p) p"
  by (simp add: endswith_def startswith_def)

section \<open>Facts about numerals\<close>








lemma decimal_no_underscore:
  "list_all isdecimal ds \<Longrightarrow> filter (\<lambda>c. c \<noteq> CHR ''_'') ds = ds"
  by (induction ds) (auto simp: isdecimal_def)






















section \<open>Header lines\<close>











section \<open>Error messages of the parser\<close>

lemma parse_lines_append:
  "parse_lines st n (xs @ ys) =
     (case parse_lines st n xs of
        Inl e \<Rightarrow> Inl e
      | Inr st' \<Rightarrow> parse_lines st' (n + length xs) ys)"
  by (induction xs arbitrary: st n) (auto split: sum.splits)

lemma parse_lines_at:
  assumes "i < length ls" and "parse_lines st0 n (take i ls) = Inr st"
    and "parse_line st (n + i) (ls ! i) = Inl e"
  shows "parse_lines st0 n ls = Inl e"
proof -
  have "ls = take i ls @ ls ! i # drop (Suc i) ls"
    using assms(1) by (rule id_take_nth_drop)
  then have "parse_lines st0 n ls = parse_lines st0 n (take i ls @ ls ! i # drop (Suc i) ls)"
    by simp
  also have "\<dots> = Inl e"
    using assms by (simp add: parse_lines_append min_def)
  finally show ?thesis .
qed

lemma parse_line_unrecognized:
  "unrecognized_line raw_line \<Longrightarrow>
     parse_line st line_num raw_line =
       Inl (line_error ''Input file has wrong format: Unrecognized line format on line ''
              line_num)"
  by (cases st) (auto simp: parse_line_def unrecognized_line_def Let_def)

text \<open>
  C5 against the code. Each of these files is rejected with a message that does not hold
  the number of the line that breaks the format: a second \<open>rows\<close> header on line 3, and
  the same on line 5 with the same message; a \<open>cols\<close> value below -1 on line 2; a \<open>rows\<close>
  value that is no integer on line 1; a data line before the \<open>cols\<close> header on line 2; an
  entry outside the dimensions on line 4; and on line 3 an entry whose first field is the
  superscript two, which \<open>_is_valid_int\<close> lets through and \<open>int()\<close> refuses with its own
  message.
\<close>

theorem format_errors_name_no_line:
  "init_file [''m'' \<mapsto> ''rows=2\<newline>cols=2\<newline>rows=3\<newline>''] ''m'' =
     Inl (ValueError (''Input file has wrong format: '' @ [CHR 0x27] @ ''rows'' @ [CHR 0x27]
            @ '' specified multiple times.'')) \<and>
   init_file [''m'' \<mapsto> ''rows=2\<newline>\<newline>\<newline>cols=2\<newline>rows=3\<newline>''] ''m'' =
     Inl (ValueError (''Input file has wrong format: '' @ [CHR 0x27] @ ''rows'' @ [CHR 0x27]
            @ '' specified multiple times.'')) \<and>
   init_file [''m'' \<mapsto> ''rows=2\<newline>cols=-5\<newline>''] ''m'' =
     Inl (ValueError (''Input file has wrong format: '' @ [CHR 0x27] @ ''cols'' @ [CHR 0x27]
            @ '' value cannot be less than -1'')) \<and>
   init_file [''m'' \<mapsto> ''rows=abc\<newline>cols=2\<newline>''] ''m'' =
     Inl (ValueError (''Input file has wrong format: '' @ [CHR 0x27] @ ''rows'' @ [CHR 0x27]
            @ '' value is not an integer'')) \<and>
   init_file [''m'' \<mapsto> ''rows=2\<newline>(0,0,1)\<newline>cols=2\<newline>''] ''m'' =
     Inl (ValueError (''Input file has wrong format: Matrix dimensions must be defined ''
            @ ''before data entries.'')) \<and>
   init_file [''m'' \<mapsto> ''rows=2\<newline>cols=2\<newline>\<newline>(5,0,1)\<newline>''] ''m'' =
     Inl (ValueError ''Input file has wrong format: Data entry (5,0) out of bounds.'') \<and>
   init_file [''m'' \<mapsto> ''rows=2\<newline>cols=2\<newline>('' @ [CHR 0xB2] @ '',0,1)\<newline>''] ''m'' =
     Inl (ValueError (''invalid literal for int() with base 10: '' @ [CHR 0x27, CHR 0xB2,
            CHR 0x27]))"
  by code_simp

text \<open>
  C6 against the code: in the file whose first line is \<open>rows=5=abc\<close>, the text after the
  first \<open>=\<close> of that line is \<open>5=abc\<close>, which is not an integer, and \<open>_parse_file\<close> takes
  the line as the header \<open>rows=5\<close>: the file is read as a matrix with 6 rows.
\<close>

theorem second_equals_sign_accepted:
  "init_file [''m'' \<mapsto> ''rows=5=abc\<newline>cols=1\<newline>''] ''m'' =
     Inr \<lparr>matrix_data = [], file_declared_max_row = 5, file_declared_max_col = 1,
          rows = 6, cols = 2\<rparr> \<and>
   startswith (strip ''rows=5=abc\<newline>'') ''rows='' \<and>
   strip (drop 5 (strip ''rows=5=abc\<newline>'')) = ''5=abc'' \<and>
   \<not> is_valid_int ''5=abc'' \<and>
   split (CHR ''='') (strip ''rows=5=abc\<newline>'') ! 1 = ''5''"
  by code_simp

section \<open>Data lines\<close>

lemma startswith_Nil: "startswith s []"
  by (simp add: startswith_def)

lemma paren_not_header:
  assumes "startswith line ''(''"
  shows "line \<noteq> [] \<and> \<not> startswith line ''rows='' \<and> \<not> startswith line ''cols=''"
proof (cases line)
  case Nil
  with assms show ?thesis by (simp add: startswith_def)
next
  case (Cons a list)
  with assms have "a = CHR ''(''" by (simp add: startswith_Cons)
  with Cons show ?thesis by (simp add: startswith_Cons)
qed

lemma data_line_parts:
  assumes "map strip (split (CHR '','') (strip (slice_1_m1 line))) = parts"
    and "length parts = 3" and "list_all is_valid_int parts"
    and "int_literal (parts ! 0) = Inr r" and "int_literal (parts ! 1) = Inr c"
    and "int_literal (parts ! 2) = Inr v"
  shows "data_line self line line_num =
       (if in_bounds self r c then set_element self r c v
        else Inl (bounds_error r c))"
  unfolding data_line_def Let_def assms(1) using assms(2-) by (simp add: in_bounds_def)

lemma addresses_parts:
  assumes "addresses raw_line r c v"
  shows "\<exists>parts. map strip (split (CHR '','') (strip (slice_1_m1 (strip raw_line)))) = parts \<and>
           startswith (strip raw_line) ''('' \<and> endswith (strip raw_line) '')'' \<and>
           length parts = 3 \<and> list_all is_valid_int parts \<and>
           int_literal (parts ! 0) = Inr r \<and> int_literal (parts ! 1) = Inr c \<and>
           int_literal (parts ! 2) = Inr v"
  using assms unfolding addresses_def Let_def by blast

lemma parse_line_addresses:
  assumes "addresses raw_line r c v"
  shows "parse_line (self, True, True) line_num raw_line =
       (if in_bounds self r c
        then (case set_element self r c v of
                Inl e \<Rightarrow> Inl e
              | Inr self' \<Rightarrow> Inr (self', True, True))
        else Inl (bounds_error r c))"
proof -
  let ?line = "strip raw_line"
  from addresses_parts [OF assms] obtain parts where
    p: "map strip (split (CHR '','') (strip (slice_1_m1 ?line))) = parts"
      "length parts = 3" "list_all is_valid_int parts"
      "int_literal (parts ! 0) = Inr r" "int_literal (parts ! 1) = Inr c"
      "int_literal (parts ! 2) = Inr v"
    and shape: "startswith ?line ''(''" "endswith ?line '')''"
    by blast
  note nh = paren_not_header [OF shape(1)]
  note d = data_line_parts [OF p, of self line_num]
  show ?thesis using nh shape by (simp add: parse_line_def Let_def d)
qed

lemma parse_line_data_Inr:
  assumes "parse_line (self, pr, pc) line_num raw_line = Inr (self', pr', pc')"
  shows "self' = self \<or> matrix_data self' = matrix_data self \<or>
         (\<exists>r c v. addresses raw_line r c v \<and> set_element self r c v = Inr self')"
proof -
  from parse_line_Inr [OF assms] show ?thesis
  proof (elim disjE conjE exE)
    fix m assume "header_try self (strip raw_line) line_num raw_line ''row'' = Inr m"
      "(self', pr', pc') = (m, True, pc)"
    then show ?thesis using header_try_matrix_data by blast
  next
    fix m assume "header_try self (strip raw_line) line_num raw_line ''col'' = Inr m"
      "(self', pr', pc') = (m, pr, True)"
    then show ?thesis using header_try_matrix_data by blast
  next
    fix m assume shape: "startswith (strip raw_line) ''(''" "endswith (strip raw_line) '')''"
      and d: "data_line self (strip raw_line) line_num = Inr m"
      and eq: "(self', pr', pc') = (m, pr, pc)"
    from data_line_Inr [OF d] obtain r c v where
      "addresses raw_line r c v" "set_element self r c v = Inr m"
      using shape unfolding addresses_def Let_def by blast
    then show ?thesis using eq by blast
  qed simp
qed

lemma addresses_functional:
  "addresses raw_line r c v \<Longrightarrow> addresses raw_line r' c' v' \<Longrightarrow> r' = r \<and> c' = c \<and> v' = v"
  by (auto dest!: addresses_parts)

lemma parse_line_keeps_entry:
  assumes "parse_line (self, pr, pc) line_num raw_line = Inr (self', pr', pc')"
    and "\<And>v. \<not> addresses raw_line r c v"
  shows "entry self' r c = entry self r c"
proof -
  from parse_line_data_Inr [OF assms(1)] show ?thesis
  proof (elim disjE exE conjE)
    fix r' c' v' assume a: "addresses raw_line r' c' v'"
      and s: "set_element self r' c' v' = Inr self'"
    have "\<not> (r = r' \<and> c = c')" using a assms(2) by blast
    then show ?thesis using set_element_entry [OF s, of r c] by auto
  qed (simp_all add: entry_def)
qed

lemma parse_lines_keep_entry:
  assumes "parse_lines st line_num ls = Inr st'"
    and "\<And>l v. l \<in> set ls \<Longrightarrow> \<not> addresses l r c v"
  shows "entry (fst st') r c = entry (fst st) r c"
  using assms
proof (induction ls arbitrary: st line_num)
  case Nil
  then show ?case by simp
next
  case (Cons l ls)
  from Cons.prems(1) obtain st1 where 1: "parse_line st line_num l = Inr st1"
    and 2: "parse_lines st1 (Suc line_num) ls = Inr st'"
    by (auto split: sum.splits)
  have "entry (fst st1) r c = entry (fst st) r c"
    using parse_line_keeps_entry [of "fst st" "fst (snd st)" "snd (snd st)" line_num l
        "fst st1" "fst (snd st1)" "snd (snd st1)" r c] 1 Cons.prems(2)
    by simp
  moreover have "entry (fst st') r c = entry (fst st1) r c"
    using 2 Cons.prems(2) by (intro Cons.IH) simp_all
  ultimately show ?case by simp
qed

lemma parse_line_addresses_Inr:
  assumes "parse_line (self, pr, pc) line_num raw_line = Inr st'"
    and "addresses raw_line r c v"
  shows "pr \<and> pc \<and> in_bounds self r c \<and>
         (\<exists>self'. st' = (self', True, True) \<and> set_element self r c v = Inr self')"
proof -
  have shape: "startswith (strip raw_line) ''(''"
    using addresses_parts [OF assms(2)] by blast
  note nh = paren_not_header [OF shape]
  from parse_line_Inr [OF assms(1)] nh have flags: "pr" "pc" by auto
  from assms(1) parse_line_addresses [OF assms(2), of self line_num] flags
  show ?thesis by (auto split: if_splits sum.splits)
qed

lemma parse_lines_nth:
  assumes "parse_lines st0 n ls = Inr st'" and "i < length ls"
  shows "\<exists>st1 st2. parse_lines st0 n (take i ls) = Inr st1 \<and>
           parse_line st1 (n + i) (ls ! i) = Inr st2 \<and>
           parse_lines st2 (Suc (n + i)) (drop (Suc i) ls) = Inr st'"
proof -
  have "parse_lines st0 n (take i ls @ ls ! i # drop (Suc i) ls) = Inr st'"
    by (simp only: id_take_nth_drop [OF assms(2), symmetric] assms(1))
  then show ?thesis
    using assms(2) by (auto simp: parse_lines_append min_def split: sum.splits)
qed

text \<open>
  C10. A data line that addresses \<open>(r, c)\<close> inside the dimensions is accepted whatever
  the matrix holds at \<open>(r, c)\<close> from earlier lines; after it the matrix holds the value of
  the line there, or no entry when that value is 0, and the other positions are as
  before. When a file is read without error and line \<open>i\<close> is the last of its lines that
  addresses \<open>(r, c)\<close>, the matrix read holds the value of line \<open>i\<close> at \<open>(r, c)\<close>, or no
  entry there when that value is 0.
\<close>

theorem last_data_line_wins:
  "(addresses raw_line r c v \<and> in_bounds self r c \<longrightarrow>
      (\<exists>self'. parse_line (self, True, True) line_num raw_line = Inr (self', True, True) \<and>
         entry self' r c = (if v = 0 then None else Some v) \<and>
         (\<forall>r' c'. (r', c') \<noteq> (r, c) \<longrightarrow> entry self' r' c' = entry self r' c'))) \<and>
   (fs source = Some content \<and> init_file fs source = Inr m \<and>
    i < length (readlines content) \<and> addresses (readlines content ! i) r c v \<and>
    (\<forall>j v'. i < j \<and> j < length (readlines content) \<longrightarrow>
       \<not> addresses (readlines content ! j) r c v') \<longrightarrow>
      entry m r c = (if v = 0 then None else Some v))"
proof (intro conjI impI)
  assume a: "addresses raw_line r c v \<and> in_bounds self r c"
  then obtain self' where s: "set_element self r c v = Inr self'"
    using set_element_succeeds by blast
  from a have ad: "addresses raw_line r c v" and ib: "in_bounds self r c" by simp_all
  have "parse_line (self, True, True) line_num raw_line = Inr (self', True, True)"
    using parse_line_addresses [OF ad, of self line_num] ib s by simp
  moreover have "entry self' r c = (if v = 0 then None else Some v)"
    using set_element_entry [OF s, of r c] by simp
  moreover have "\<forall>r' c'. (r', c') \<noteq> (r, c) \<longrightarrow> entry self' r' c' = entry self r' c'"
    using set_element_entry [OF s] by auto
  ultimately show "\<exists>self'. parse_line (self, True, True) line_num raw_line = Inr (self', True, True) \<and>
         entry self' r c = (if v = 0 then None else Some v) \<and>
         (\<forall>r' c'. (r', c') \<noteq> (r, c) \<longrightarrow> entry self' r' c' = entry self r' c')"
    by blast
next
  let ?ls = "readlines content"
  let ?st0 = "(blank_matrix\<lparr>file_declared_max_row := - 2, file_declared_max_col := - 2\<rparr>,
                 False, False)"
  assume a: "fs source = Some content \<and> init_file fs source = Inr m \<and>
    i < length ?ls \<and> addresses (?ls ! i) r c v \<and>
    (\<forall>j v'. i < j \<and> j < length ?ls \<longrightarrow> \<not> addresses (?ls ! j) r c v')"
  then have run: "parse_lines ?st0 0 ?ls = Inr (m, True, True)"
    using parse_file_Inr [of blank_matrix fs source m] by (auto simp: init_file_def)
  from parse_lines_nth [OF run, of i] a
  obtain st1 st2 where 1: "parse_lines ?st0 0 (take i ?ls) = Inr st1"
    and 2: "parse_line st1 i (?ls ! i) = Inr st2"
    and 3: "parse_lines st2 (Suc i) (drop (Suc i) ?ls) = Inr (m, True, True)"
    by auto
  obtain self pr pc where st1: "st1 = (self, pr, pc)" by (cases st1)
  from parse_line_addresses_Inr [OF 2 [unfolded st1]] a
  obtain self' where st2: "st2 = (self', True, True)"
    and s: "set_element self r c v = Inr self'" by blast
  have e2: "entry self' r c = (if v = 0 then None else Some v)"
    using set_element_entry [OF s, of r c] by simp
  have "\<not> addresses l r c v'" if "l \<in> set (drop (Suc i) ?ls)" for l v'
  proof -
    from that obtain k where k: "k < length (drop (Suc i) ?ls)" "l = drop (Suc i) ?ls ! k"
      by (auto simp: in_set_conv_nth)
    then have "l = ?ls ! (Suc i + k)" "Suc i + k < length ?ls" by simp_all
    then show ?thesis using a by simp
  qed
  from parse_lines_keep_entry [OF 3 this] st2 e2
  show "entry m r c = (if v = 0 then None else Some v)" by simp
qed

theorem last_data_line_wins_witness:
  "addresses ''(0,1,7)\<newline>'' 0 1 7 \<and> in_bounds five_at_origin 0 1 \<and>
   parse_line (five_at_origin\<lparr>matrix_data := [(0, [(0, 5), (1, 5)])]\<rparr>, True, True) 3 ''(0,1,7)\<newline>'' =
     Inr (five_at_origin\<lparr>matrix_data := [(0, [(0, 5), (1, 7)])]\<rparr>, True, True) \<and>
   init_file [''d'' \<mapsto> ''rows=1\<newline>cols=1\<newline>(0,1,5)\<newline>(0,1,7)\<newline>(1,1,3)\<newline>(1,1,0)\<newline>''] ''d'' =
     Inr (five_at_origin\<lparr>matrix_data := [(0, [(1, 7)])]\<rparr>) \<and>
   entry (five_at_origin\<lparr>matrix_data := [(0, [(1, 7)])]\<rparr>) 0 1 = Some 7 \<and>
   entry (five_at_origin\<lparr>matrix_data := [(0, [(1, 7)])]\<rparr>) 1 1 = None"
proof -
  let ?content = "''rows=1\<newline>cols=1\<newline>(0,1,5)\<newline>(0,1,7)\<newline>(1,1,3)\<newline>(1,1,0)\<newline>''"
  let ?m = "five_at_origin\<lparr>matrix_data := [(0, [(1, 7)])]\<rparr>"
  have ls: "readlines ?content =
      [''rows=1\<newline>'', ''cols=1\<newline>'', ''(0,1,5)\<newline>'', ''(0,1,7)\<newline>'', ''(1,1,3)\<newline>'', ''(1,1,0)\<newline>'']"
    by code_simp
  have a: "addresses ''(0,1,7)\<newline>'' 0 1 7" "addresses ''(1,1,3)\<newline>'' 1 1 3"
    "addresses ''(1,1,0)\<newline>'' 1 1 0"
    by code_simp+
  have ib: "in_bounds (five_at_origin\<lparr>matrix_data := [(0, [(0, 5), (1, 5)])]\<rparr>) 0 1"
    "in_bounds five_at_origin 0 1"
    by (simp_all add: in_bounds_def five_at_origin_def)
  have loaded: "init_file [''d'' \<mapsto> ?content] ''d'' = Inr ?m"
    by code_simp
  have step: "parse_line (five_at_origin\<lparr>matrix_data := [(0, [(0, 5), (1, 5)])]\<rparr>, True, True) 3
      ''(0,1,7)\<newline>'' =
     Inr (five_at_origin\<lparr>matrix_data := [(0, [(0, 5), (1, 7)])]\<rparr>, True, True)"
    by code_simp
  have later1: "\<forall>j v'. 3 < j \<and> j < length (readlines ?content) \<longrightarrow>
      \<not> addresses (readlines ?content ! j) 0 1 v'"
  proof (intro allI impI)
    fix j :: nat and v' :: int
    assume "3 < j \<and> j < length (readlines ?content)"
    then have "j = 4 \<or> j = 5" unfolding ls by auto
    then show "\<not> addresses (readlines ?content ! j) 0 1 v'"
      unfolding ls using a addresses_functional by fastforce
  qed
  have later2: "\<forall>j v'. 5 < j \<and> j < length (readlines ?content) \<longrightarrow>
      \<not> addresses (readlines ?content ! j) 1 1 v'"
  proof (intro allI impI)
    fix j :: nat and v' :: int
    assume "5 < j \<and> j < length (readlines ?content)"
    moreover have "length (readlines ?content) = 6" unfolding ls by simp
    ultimately have False by arith
    then show "\<not> addresses (readlines ?content ! j) 1 1 v'" by simp
  qed
  have e1: "entry ?m 0 1 = Some 7"
    using last_data_line_wins [where fs = "[''d'' \<mapsto> ?content]" and source = "''d''"
        and content = ?content and m = ?m and i = 3 and r = 0 and c = 1 and v = 7]
      loaded a(1) later1 unfolding ls by simp
  have e2: "entry ?m 1 1 = None"
    using last_data_line_wins [where fs = "[''d'' \<mapsto> ?content]" and source = "''d''"
        and content = ?content and m = ?m and i = 5 and r = 1 and c = 1 and v = 0]
      loaded a(3) later2 unfolding ls by simp
  show ?thesis using a(1) ib step loaded e1 e2 by simp
qed

section \<open>The lines \<open>save_to_file\<close> writes\<close>









section \<open>Reading back the lines\<close>





section \<open>\<open>save_to_file\<close> and \<open>_parse_file\<close>\<close>



















section \<open>Whitespace and blank lines\<close>

lemma split_append:
  "split sep (x @ sep # y) = split sep x @ split sep y"
  by (induction x) (auto split: list.splits simp: split_not_Nil)

lemma split_prefix:
  "sep \<notin> set w \<Longrightarrow> split sep (w @ a) = (w @ hd (split sep a)) # tl (split sep a)"
proof (induction w)
  case Nil
  then show ?case using split_not_Nil [of sep a] by simp
next
  case (Cons c w)
  then show ?case by auto
qed

lemma split_suffix:
  "sep \<notin> set w \<Longrightarrow>
     split sep (a @ w) = butlast (split sep a) @ [last (split sep a) @ w]"
proof (induction a)
  case Nil
  then show ?case by (simp add: split_none)
next
  case (Cons c a)
  then show ?case
    using split_not_Nil [of sep a]
    by (cases "split sep a") (auto simp: split_not_Nil)
qed

lemma space_not_comma: "list_all isspace w \<Longrightarrow> CHR '','' \<notin> set w"
  by (auto simp: list_all_iff isspace_def)

lemma space_not_equals: "list_all isspace w \<Longrightarrow> CHR ''='' \<notin> set w"
  by (auto simp: list_all_iff isspace_def)

lemma fields_left:
  assumes "list_all isspace w"
  shows "map strip (split (CHR '','') (w @ a)) = map strip (split (CHR '','') a)"
proof -
  obtain p ps where ps: "split (CHR '','') a = p # ps"
    using split_not_Nil [of "CHR '',''" a] by (cases "split (CHR '','') a") auto
  have "split (CHR '','') (w @ a) = (w @ p) # ps"
    using split_prefix [OF space_not_comma [OF assms], of a] ps by simp
  then show ?thesis using ps by (simp add: strip_left [OF assms])
qed

lemma fields_right:
  assumes "list_all isspace w"
  shows "map strip (split (CHR '','') (a @ w)) = map strip (split (CHR '','') a)"
proof -
  obtain ps p where ps: "split (CHR '','') a = ps @ [p]"
    using split_not_Nil [of "CHR '',''" a] by (cases "split (CHR '','') a" rule: rev_cases) auto
  have "split (CHR '','') (a @ w) = ps @ [p @ w]"
    using split_suffix [OF space_not_comma [OF assms], of a] ps by simp
  then show ?thesis using ps by (simp add: strip_right [OF assms])
qed

lemma fields_strip:
  "map strip (split (CHR '','') (strip s)) = map strip (split (CHR '','') s)"
proof -
  obtain w1 w2 where d: "s = w1 @ strip s @ w2" and w: "list_all isspace w1" "list_all isspace w2"
    using strip_decomp by blast
  have "map strip (split (CHR '','') (w1 @ strip s @ w2)) =
        map strip (split (CHR '','') (strip s @ w2))"
    using w(1) by (rule fields_left)
  also have "\<dots> = map strip (split (CHR '','') (strip s))"
    using w(2) by (rule fields_right)
  finally have "map strip (split (CHR '','') (w1 @ strip s @ w2)) =
        map strip (split (CHR '','') (strip s))" .
  moreover have "map strip (split (CHR '','') (w1 @ strip s @ w2)) =
        map strip (split (CHR '','') s)"
    using d by (rule arg_cong [symmetric])
  ultimately show ?thesis by simp
qed

lemma fields_padded:
  assumes "list_all isspace w1" and "list_all isspace w2"
  shows "map strip (split (CHR '','') (w1 @ a @ w2)) = map strip (split (CHR '','') a)"
proof -
  have "map strip (split (CHR '','') (w1 @ a @ w2)) = map strip (split (CHR '','') (a @ w2))"
    using assms(1) by (rule fields_left)
  also have "\<dots> = map strip (split (CHR '','') a)" using assms(2) by (rule fields_right)
  finally show ?thesis .
qed

lemma three_fields_padded:
  assumes "list_all isspace w1" "list_all isspace w2" "list_all isspace w3"
    "list_all isspace w4" "list_all isspace w5" "list_all isspace w6"
  shows "map strip (split (CHR '','')
           (strip (w1 @ a @ w2 @ '','' @ w3 @ b @ w4 @ '','' @ w5 @ c @ w6))) =
         map strip (split (CHR '','') (strip (a @ '','' @ b @ '','' @ c)))"
proof -
  have "split (CHR '','') ((w1 @ a @ w2) @ CHR '','' # (w3 @ b @ w4) @ CHR '','' # (w5 @ c @ w6)) =
      split (CHR '','') (w1 @ a @ w2) @ split (CHR '','') (w3 @ b @ w4)
      @ split (CHR '','') (w5 @ c @ w6)"
    by (simp only: split_append)
  then have "map strip (split (CHR '','')
            ((w1 @ a @ w2) @ CHR '','' # (w3 @ b @ w4) @ CHR '','' # (w5 @ c @ w6))) =
      map strip (split (CHR '','') a) @ map strip (split (CHR '','') b)
      @ map strip (split (CHR '','') c)"
    by (simp only: map_append fields_padded [OF assms(1,2)] fields_padded [OF assms(3,4)]
        fields_padded [OF assms(5,6)])
  moreover have "map strip (split (CHR '','') (a @ CHR '','' # b @ CHR '','' # c)) =
      map strip (split (CHR '','') a) @ map strip (split (CHR '','') b)
      @ map strip (split (CHR '','') c)"
    by (simp only: split_append map_append)
  ultimately show ?thesis by (simp add: fields_strip)
qed

lemma rstrip_append:
  assumes "\<not> list_all isspace s"
  shows "rstrip (t @ s) = t @ rstrip s"
proof -
  from assms obtain x where "x \<in> set (rev s)" "\<not> isspace x" by (auto simp: list_all_iff)
  then have "dropWhile isspace (rev s @ rev t) = dropWhile isspace (rev s) @ rev t"
    by (rule dropWhile_append1)
  then show ?thesis by (simp add: rstrip_def)
qed

lemma strip_headed:
  assumes "p \<noteq> []" and "\<not> isspace (hd p)" and "\<not> isspace (last p)"
  shows "strip (p @ x) = p @ rstrip x"
proof -
  have l: "lstrip (p @ x) = p @ x" using assms(1,2) by (intro lstrip_id) simp_all
  show ?thesis
  proof (cases "list_all isspace x")
    case True
    then have "rstrip (p @ x) = rstrip p" by (rule rstrip_spaces)
    moreover have "rstrip x = []" using True by (simp add: rstrip_eq_Nil)
    ultimately show ?thesis using l assms by (simp add: strip_def rstrip_id)
  next
    case False
    then show ?thesis using l by (simp add: strip_def rstrip_append)
  qed
qed

lemma header_value_padded:
  assumes "list_all isspace w"
  shows "strip (hd (split (CHR ''='') (rstrip (w @ val)))) =
         strip (hd (split (CHR ''='') (rstrip val)))"
proof (cases "list_all isspace val")
  case True
  with assms have "list_all isspace (w @ val)" by simp
  then have "rstrip (w @ val) = []" by (simp only: rstrip_eq_Nil)
  moreover have "rstrip val = []" using True by (simp only: rstrip_eq_Nil)
  ultimately show ?thesis by simp
next
  case False
  then have "rstrip (w @ val) = w @ rstrip val" by (rule rstrip_append)
  moreover have "hd (split (CHR ''='') (w @ rstrip val)) = w @ hd (split (CHR ''='') (rstrip val))"
    using split_prefix [OF space_not_equals [OF assms], of "rstrip val"] by simp
  ultimately show ?thesis by (simp add: strip_left [OF assms])
qed

lemma validate_ignores_line:
  "validate_and_set_dimension self val_str line_num raw_line dim_type =
   validate_and_set_dimension self val_str line_num' raw_line' dim_type"
  by (simp add: validate_and_set_dimension_def)

lemma header_try_named:
  assumes "CHR ''='' \<notin> set name"
  shows "header_try self (name @ ''='' @ y) line_num raw_line dim_type =
         validate_and_set_dimension self (strip (hd (split (CHR ''='') y))) 0 [] dim_type"
proof -
  obtain p ps where ps: "split (CHR ''='') y = p # ps"
    using split_not_Nil [of "CHR ''=''" y] by (cases "split (CHR ''='') y") auto
  have "split (CHR ''='') (name @ CHR ''='' # y) = name # p # ps"
    using assms ps by (simp add: split_first)
  then show ?thesis
    using ps validate_ignores_line [of self "strip p" line_num raw_line dim_type 0 "[]"]
    by (simp add: header_try_def getitem_def)
qed

lemma header_line_padded:
  assumes "CHR ''='' \<notin> set name" and "list_all isspace w"
  shows "header_line self (name @ ''='' @ rstrip (w @ val)) line_num raw_line dim_type =
         header_line self (name @ ''='' @ rstrip val) line_num raw_line' dim_type"
  by (simp only: header_line_def header_try_named [OF assms(1)] header_value_padded [OF assms(2)])

lemma strip_header_padded:
  assumes "list_all isspace w1" and "list_all isspace w3"
    and "name \<noteq> []" and "\<not> isspace (hd name)"
  shows "strip (w1 @ name @ ''='' @ x @ w3) = name @ ''='' @ rstrip x"
proof -
  have "strip (w1 @ (name @ ''='' @ x) @ w3) = strip (name @ ''='' @ x)"
    using assms(1,2) by (rule strip_spaces)
  moreover have "strip ((name @ ''='') @ x) = (name @ ''='') @ rstrip x"
    using assms(3,4) by (intro strip_headed) (simp_all add: isspace_def)
  ultimately show ?thesis by simp
qed

lemma parse_line_rows_padded:
  assumes "list_all isspace w1" and "list_all isspace w2" and "list_all isspace w3"
  shows "parse_line st line_num (w1 @ ''rows='' @ w2 @ val @ w3) =
         parse_line st line_num (''rows='' @ val)"
proof -
  obtain self pr pc where st: "st = (self, pr, pc)" by (cases st)
  have none: "list_all isspace []" by simp
  have 1: "strip (w1 @ ''rows='' @ w2 @ val @ w3) = ''rows'' @ ''='' @ rstrip (w2 @ val)"
    using strip_header_padded [OF assms(1,3), of "''rows''" "w2 @ val"]
    by (simp add: isspace_def)
  have 2: "strip (''rows='' @ val) = ''rows'' @ ''='' @ rstrip val"
    using strip_header_padded [OF none none, of "''rows''" val] by (simp add: isspace_def)
  have sw: "startswith (''rows'' @ ''='' @ y) ''rows=''" for y by (simp add: startswith_def)
  have e: "CHR ''='' \<notin> set ''rows''" by simp
  show ?thesis
    unfolding st parse_line_def 1 2 Let_def
    using header_line_padded [OF e assms(2), where self = self and val = val
        and line_num = line_num and dim_type = "''row''"
        and raw_line = "w1 @ ''rows='' @ w2 @ val @ w3" and raw_line' = "''rows='' @ val"] sw
    by simp
qed

lemma parse_line_cols_padded:
  assumes "list_all isspace w1" and "list_all isspace w2" and "list_all isspace w3"
  shows "parse_line st line_num (w1 @ ''cols='' @ w2 @ val @ w3) =
         parse_line st line_num (''cols='' @ val)"
proof -
  obtain self pr pc where st: "st = (self, pr, pc)" by (cases st)
  have none: "list_all isspace []" by simp
  have 1: "strip (w1 @ ''cols='' @ w2 @ val @ w3) = ''cols'' @ ''='' @ rstrip (w2 @ val)"
    using strip_header_padded [OF assms(1,3), of "''cols''" "w2 @ val"]
    by (simp add: isspace_def)
  have 2: "strip (''cols='' @ val) = ''cols'' @ ''='' @ rstrip val"
    using strip_header_padded [OF none none, of "''cols''" val] by (simp add: isspace_def)
  have sw: "startswith (''cols'' @ ''='' @ y) ''cols=''"
    "\<not> startswith (''cols'' @ ''='' @ y) ''rows=''" for y by (simp_all add: startswith_def)
  have e: "CHR ''='' \<notin> set ''cols''" by simp
  show ?thesis
    unfolding st parse_line_def 1 2 Let_def
    using header_line_padded [OF e assms(2), where self = self and val = val
        and line_num = line_num and dim_type = "''col''"
        and raw_line = "w1 @ ''cols='' @ w2 @ val @ w3" and raw_line' = "''cols='' @ val"] sw
    by simp
qed

lemma strip_parenthesised:
  assumes "list_all isspace w0" and "list_all isspace w7"
  shows "strip (w0 @ ''('' @ inner @ '')'' @ w7) = CHR ''('' # inner @ '')''"
proof -
  have "strip (w0 @ (CHR ''('' # inner @ '')'') @ w7) = strip (CHR ''('' # inner @ '')'')"
    using assms by (rule strip_spaces)
  moreover have "strip (CHR ''('' # inner @ '')'') = CHR ''('' # inner @ '')''"
    by (rule strip_id) (simp_all add: isspace_def)
  ultimately show ?thesis by simp
qed

lemma parse_line_parenthesised:
  "parse_line (self, pr, pc) line_num raw_line =
     (if \<not> pr \<or> \<not> pc
      then Inl (ValueError (''Input file has wrong format: Matrix dimensions ''
                       @ ''must be defined before data entries.''))
      else (case data_line self (CHR ''('' # inner @ '')'') line_num of
              Inl e \<Rightarrow> Inl e
            | Inr self' \<Rightarrow> Inr (self', pr, pc)))"
  if "strip raw_line = CHR ''('' # inner @ '')''"
proof -
  have sh: "startswith (CHR ''('' # inner @ '')'') ''(''"
    by (simp add: startswith_Cons startswith_Nil)
  have eh: "endswith (CHR ''('' # inner @ '')'') '')''"
    using endswith_append [of "CHR ''('' # inner" "'')''"] by simp
  note nh = paren_not_header [OF sh]
  show ?thesis unfolding parse_line_def that Let_def using sh eh nh by simp
qed

lemma data_line_fields:
  assumes "map strip (split (CHR '','') (strip i1)) = map strip (split (CHR '','') (strip i2))"
  shows "data_line self (CHR ''('' # i1 @ '')'') line_num =
         data_line self (CHR ''('' # i2 @ '')'') line_num"
proof -
  have sl: "slice_1_m1 (CHR ''('' # i @ '')'') = i" for i
    using butlast_snoc [of i "CHR '')''"] by (simp add: slice_1_m1_def)
  show ?thesis unfolding data_line_def sl assms ..
qed

lemma parse_line_data_padded:
  assumes "list_all isspace w0" "list_all isspace w1" "list_all isspace w2"
    "list_all isspace w3" "list_all isspace w4" "list_all isspace w5"
    "list_all isspace w6" "list_all isspace w7"
  shows "parse_line st line_num
           (w0 @ ''('' @ w1 @ a @ w2 @ '','' @ w3 @ b @ w4 @ '','' @ w5 @ c @ w6 @ '')'' @ w7) =
         parse_line st line_num (''('' @ a @ '','' @ b @ '','' @ c @ '')'')"
proof -
  obtain self pr pc where st: "st = (self, pr, pc)" by (cases st)
  let ?i1 = "w1 @ a @ w2 @ '','' @ w3 @ b @ w4 @ '','' @ w5 @ c @ w6"
  let ?i2 = "a @ '','' @ b @ '','' @ c"
  have none: "list_all isspace []" by simp
  have 1: "strip (w0 @ ''('' @ ?i1 @ '')'' @ w7) = CHR ''('' # ?i1 @ '')''"
    using assms(1,8) by (rule strip_parenthesised)
  have 2: "strip ([] @ ''('' @ ?i2 @ '')'' @ []) = CHR ''('' # ?i2 @ '')''"
    using none none by (rule strip_parenthesised)
  have f: "map strip (split (CHR '','') (strip ?i1)) = map strip (split (CHR '','') (strip ?i2))"
    using assms(2-7) by (rule three_fields_padded)
  have "parse_line st line_num (w0 @ ''('' @ ?i1 @ '')'' @ w7) =
        parse_line st line_num ([] @ ''('' @ ?i2 @ '')'' @ [])"
    unfolding st parse_line_parenthesised [OF 1] parse_line_parenthesised [OF 2]
      data_line_fields [OF f] ..
  then show ?thesis by simp
qed

lemma header_try_ignores:
  "header_try self line line_num raw_line dim_type =
   header_try self line line_num' raw_line' dim_type"
  using validate_ignores_line [of self _ line_num raw_line dim_type line_num' raw_line']
  by (simp add: header_try_def split: sum.splits)

lemma header_line_number:
  "(\<exists>e e'. header_line self line n raw dim_type = Inl e \<and>
            header_line self line n' raw dim_type = Inl e') \<or>
   header_line self line n raw dim_type = header_line self line n' raw dim_type"
  using header_try_ignores [of self line n raw dim_type n' raw]
  by (cases "header_try self line n' raw dim_type")
    (auto simp: header_line_def split: option.splits)

lemma data_line_number:
  "(\<exists>e e'. data_line self line n = Inl e \<and> data_line self line n' = Inl e') \<or>
   data_line self line n = data_line self line n'"
proof (cases "length (map strip (split (CHR '','') (strip (slice_1_m1 line)))) \<noteq> 3 \<or>
    \<not> list_all is_valid_int (map strip (split (CHR '','') (strip (slice_1_m1 line))))")
  case True
  then have "\<exists>e. data_line self line k = Inl e" for k
    unfolding data_line_def Let_def by (simp only: if_True) blast
  then show ?thesis by blast
next
  case False
  then have "data_line self line n = data_line self line n'"
    unfolding data_line_def Let_def by (simp only: if_False)
  then show ?thesis by blast
qed

lemma case_Inl_number:
  assumes "(\<exists>e e'. x = Inl e \<and> y = Inl e') \<or> x = y"
  shows "(\<exists>e e'. (case x of Inl e \<Rightarrow> Inl e | Inr a \<Rightarrow> Inr (f a)) = Inl e \<and>
                  (case y of Inl e \<Rightarrow> Inl e | Inr a \<Rightarrow> Inr (f a)) = Inl e') \<or>
         (case x of Inl e \<Rightarrow> Inl e | Inr a \<Rightarrow> Inr (f a)) =
         (case y of Inl e \<Rightarrow> Inl e | Inr a \<Rightarrow> Inr (f a))"
  using assms by auto

lemma parse_line_number:
  "(\<exists>e e'. parse_line st n raw = Inl e \<and> parse_line st n' raw = Inl e') \<or>
   parse_line st n raw = parse_line st n' raw"
proof -
  obtain self pr pc where st: "st = (self, pr, pc)" by (cases st)
  let ?line = "strip raw"
  consider (blank) "?line = []"
    | (rows) "?line \<noteq> []" "startswith ?line ''rows=''"
    | (cols) "?line \<noteq> []" "\<not> startswith ?line ''rows=''" "startswith ?line ''cols=''"
    | (data) "?line \<noteq> []" "\<not> startswith ?line ''rows=''" "\<not> startswith ?line ''cols=''"
        "startswith ?line ''('' \<and> endswith ?line '')''"
    | (other) "?line \<noteq> []" "\<not> startswith ?line ''rows=''" "\<not> startswith ?line ''cols=''"
        "\<not> (startswith ?line ''('' \<and> endswith ?line '')'')"
    by blast
  then show ?thesis
  proof cases
    case blank
    then show ?thesis by (simp add: st parse_line_def)
  next
    case rows
    show ?thesis
    proof (cases pr)
      case True
      with rows show ?thesis by (simp add: st parse_line_def)
    next
      case False
      have "parse_line st k raw =
          (case header_line self ?line k raw ''row'' of
             Inl e \<Rightarrow> Inl e | Inr self' \<Rightarrow> Inr (self', True, pc))" for k
        using rows False by (simp add: st parse_line_def)
      then show ?thesis
        using case_Inl_number [OF header_line_number [of self ?line n raw "''row''" n']]
        by simp
    qed
  next
    case cols
    show ?thesis
    proof (cases pc)
      case True
      with cols show ?thesis by (simp add: st parse_line_def)
    next
      case False
      have "parse_line st k raw =
          (case header_line self ?line k raw ''col'' of
             Inl e \<Rightarrow> Inl e | Inr self' \<Rightarrow> Inr (self', pr, True))" for k
        using cols False by (simp add: st parse_line_def)
      then show ?thesis
        using case_Inl_number [OF header_line_number [of self ?line n raw "''col''" n']]
        by simp
    qed
  next
    case data
    show ?thesis
    proof (cases "pr \<and> pc")
      case False
      with data show ?thesis by (simp add: st parse_line_def)
    next
      case True
      have "parse_line st k raw =
          (case data_line self ?line k of
             Inl e \<Rightarrow> Inl e | Inr self' \<Rightarrow> Inr (self', True, True))" for k
        using data True by (simp add: st parse_line_def)
      then show ?thesis
        using case_Inl_number [OF data_line_number [of self ?line n n']]
        by simp
    qed
  next
    case other
    then have "unrecognized_line raw" by (simp add: unrecognized_line_def Let_def)
    from parse_line_unrecognized [OF this] show ?thesis by blast
  qed
qed

lemma parse_lines_number:
  "(\<exists>e e'. parse_lines st n ls = Inl e \<and> parse_lines st n' ls = Inl e') \<or>
   parse_lines st n ls = parse_lines st n' ls"
proof (induction ls arbitrary: st n n')
  case Nil
  show ?case by simp
next
  case (Cons l ls)
  from parse_line_number [of st n l n'] show ?case
  proof (elim disjE exE conjE)
    fix e e' assume "parse_line st n l = Inl e" "parse_line st n' l = Inl e'"
    then show ?thesis by simp
  next
    assume eq: "parse_line st n l = parse_line st n' l"
    show ?thesis
    proof (cases "parse_line st n' l")
      case (Inl e)
      with eq show ?thesis by simp
    next
      case (Inr st1)
      with eq Cons.IH [of st1 "Suc n" "Suc n'"] show ?thesis by simp
    qed
  qed
qed

lemma parse_line_blank: "list_all isspace b \<Longrightarrow> parse_line st n b = Inr st"
  by (cases st) (simp add: parse_line_def strip_eq_Nil [THEN iffD2])

lemma parse_lines_blank:
  assumes "list_all isspace b"
  shows "parse_lines st n (xs @ b # ys) = Inr st' \<longleftrightarrow> parse_lines st n (xs @ ys) = Inr st'"
proof (cases "parse_lines st n xs")
  case (Inl e)
  then show ?thesis by (simp add: parse_lines_append)
next
  case (Inr st1)
  have "parse_lines st1 (n + length xs) (b # ys) = parse_lines st1 (Suc (n + length xs)) ys"
    using parse_line_blank [OF assms] by simp
  moreover have "parse_lines st1 (Suc (n + length xs)) ys = Inr st' \<longleftrightarrow>
      parse_lines st1 (n + length xs) ys = Inr st'"
    using parse_lines_number [of st1 "Suc (n + length xs)" ys "n + length xs"] by auto
  ultimately show ?thesis using Inr by (simp add: parse_lines_append)
qed

lemma space_before_equals:
  assumes "list_all isspace w0" and "list_all isspace w" and "w \<noteq> []"
    and "name = ''rows'' \<or> name = ''cols''"
  shows "unrecognized_line (w0 @ name @ w @ ''='' @ rest)"
proof -
  obtain s ws where w: "w = s # ws" "isspace s" using assms(2,3) by (cases w) auto
  have none: "list_all isspace []" by simp
  have "strip (w0 @ (name @ w @ ''='' @ rest) @ []) = strip (name @ w @ ''='' @ rest)"
    using assms(1) none by (rule strip_spaces)
  moreover have "strip ((name @ w @ ''='') @ rest) = (name @ w @ ''='') @ rstrip rest"
    using assms(4) by (intro strip_headed) (auto simp: isspace_def)
  ultimately have line: "strip (w0 @ name @ w @ ''='' @ rest) = name @ s # ws @ ''='' @ rstrip rest"
    using w by simp
  have "s \<noteq> CHR ''=''" using w(2) by (auto simp: isspace_def)
  then show ?thesis
    unfolding unrecognized_line_def line Let_def using assms(4)
    by (auto simp: startswith_Cons)
qed

lemma parse_line_padded: "padded l' l \<Longrightarrow> parse_line st n l' = parse_line st n l"
proof (induction rule: padded.induct)
  case (rows w1 w2 w3 val)
  then show ?case by (rule parse_line_rows_padded)
next
  case (cols w1 w2 w3 val)
  then show ?case by (rule parse_line_cols_padded)
next
  case (data w0 w1 w2 w3 w4 w5 w6 w7 a b c)
  then show ?case by (rule parse_line_data_padded)
qed

lemma parse_lines_padded:
  assumes "padded l' l"
  shows "parse_lines st n (xs @ l' # ys) = parse_lines st n (xs @ l # ys)"
  by (simp add: parse_lines_append parse_line_padded [OF assms] split: sum.splits)

lemma parse_file_lines:
  assumes "fs p = Some content" and "fs' p' = Some content'"
    and "parse_lines (self\<lparr>file_declared_max_row := - 2, file_declared_max_col := - 2\<rparr>,
                      False, False) 0 (readlines content') =
         parse_lines (self\<lparr>file_declared_max_row := - 2, file_declared_max_col := - 2\<rparr>,
                      False, False) 0 (readlines content)"
  shows "parse_file self fs' p' = parse_file self fs p"
  using assms by (simp add: parse_file_def)

lemma parse_file_Inr_iff:
  assumes "fs p = Some content"
  shows "parse_file self fs p = Inr m \<longleftrightarrow>
     parse_lines (self\<lparr>file_declared_max_row := - 2, file_declared_max_col := - 2\<rparr>,
                  False, False) 0 (readlines content) = Inr (m, True, True)"
  using assms by (auto simp: parse_file_def split: sum.splits)

text \<open>
  C9, as amended. A line with whitespace added before and after it, after the \<open>=\<close> of a
  header, inside the parentheses of a data line or around its three fields is read as
  the line without that whitespace, so two files that differ in one line, which in both
  is the same line up to such whitespace, are read with the same result. A file with a whitespace-only line added anywhere
  is read as a matrix exactly when the file without it is, and as the same matrix. A
  header line with whitespace between its name and the \<open>=\<close> is not read as a header: it
  raises the \<open>Unrecognized line format\<close> error, whose message ends with the number of
  the line.
\<close>

theorem whitespace_ignored:
  "(padded l' l \<longrightarrow> parse_line st n l' = parse_line st n l) \<and>
   (fs p = Some content \<and> fs' p' = Some content' \<and>
    readlines content = xs @ l1 # ys \<and> readlines content' = xs @ l2 # ys \<and>
    padded l1 l0 \<and> padded l2 l0 \<longrightarrow>
      init_file fs' p' = init_file fs p) \<and>
   (fs p = Some content \<and> fs' p' = Some content' \<and>
    readlines content = xs @ ys \<and> readlines content' = xs @ b # ys \<and> list_all isspace b \<longrightarrow>
      (init_file fs' p' = Inr m \<longleftrightarrow> init_file fs p = Inr m)) \<and>
   (list_all isspace w0 \<and> list_all isspace w \<and> w \<noteq> [] \<and>
    (name = ''rows'' \<or> name = ''cols'') \<longrightarrow>
      parse_line st n (w0 @ name @ w @ ''='' @ val) =
        Inl (line_error ''Input file has wrong format: Unrecognized line format on line '' n))"
proof (intro conjI impI)
  assume "padded l' l"
  then show "parse_line st n l' = parse_line st n l" by (rule parse_line_padded)
next
  assume a: "fs p = Some content \<and> fs' p' = Some content' \<and>
    readlines content = xs @ l1 # ys \<and> readlines content' = xs @ l2 # ys \<and>
    padded l1 l0 \<and> padded l2 l0"
  then have 1: "fs p = Some content" and 2: "fs' p' = Some content'" by simp_all
  have 3: "parse_lines st0 0 (readlines content') = parse_lines st0 0 (readlines content)"
    for st0
    using a parse_lines_padded [of l1 l0 st0 0 xs ys] parse_lines_padded [of l2 l0 st0 0 xs ys]
    by simp
  show "init_file fs' p' = init_file fs p"
    unfolding init_file_def using 1 2 3 by (rule parse_file_lines)
next
  assume a: "fs p = Some content \<and> fs' p' = Some content' \<and>
    readlines content = xs @ ys \<and> readlines content' = xs @ b # ys \<and> list_all isspace b"
  then have "parse_lines st0 0 (readlines content') = Inr r \<longleftrightarrow>
      parse_lines st0 0 (readlines content) = Inr r" for st0 r
    using parse_lines_blank [of b st0 0 xs ys r] by simp
  with a show "init_file fs' p' = Inr m \<longleftrightarrow> init_file fs p = Inr m"
    by (simp add: init_file_def parse_file_Inr_iff)
next
  assume "list_all isspace w0 \<and> list_all isspace w \<and> w \<noteq> [] \<and>
    (name = ''rows'' \<or> name = ''cols'')"
  then have "unrecognized_line (w0 @ name @ w @ ''='' @ val)"
    using space_before_equals by blast
  then show "parse_line st n (w0 @ name @ w @ ''='' @ val) =
        Inl (line_error ''Input file has wrong format: Unrecognized line format on line '' n)"
    by (rule parse_line_unrecognized)
qed

text \<open>
  C9 as stated fails: the file with the lines \<open>rows=1\<close> and \<open>cols=1\<close> is read as a 2 by 2
  matrix, and with a space put before the \<open>=\<close> of its first line it is rejected.
\<close>

theorem space_before_equals_rejected:
  "init_file [''f'' \<mapsto> ''rows=1\<newline>cols=1\<newline>''] ''f'' =
     Inr \<lparr>matrix_data = [], file_declared_max_row = 1, file_declared_max_col = 1,
          rows = 2, cols = 2\<rparr> \<and>
   init_file [''f'' \<mapsto> ''rows =1\<newline>cols=1\<newline>''] ''f'' =
     Inl (ValueError ''Input file has wrong format: Unrecognized line format on line 1'')"
  by code_simp

theorem whitespace_ignored_witness:
  "padded ''  rows= 1 \<newline>'' ''rows=1'' \<and>
   parse_line (blank_matrix, False, False) 0 ''  rows= 1 \<newline>'' =
     parse_line (blank_matrix, False, False) 0 ''rows=1'' \<and>
   padded ''(0,0,5)\<newline>'' ''(0,0,5)'' \<and> padded '' ( 0 , 0,5 ) \<newline>'' ''(0,0,5)'' \<and>
   init_file [''b'' \<mapsto> ''rows=1\<newline>cols=1\<newline> ( 0 , 0,5 ) \<newline>''] ''b'' =
     init_file [''a'' \<mapsto> ''rows=1\<newline>cols=1\<newline>(0,0,5)\<newline>''] ''a'' \<and>
   init_file [''a'' \<mapsto> ''rows=1\<newline>cols=1\<newline>(0,0,5)\<newline>''] ''a'' = Inr five_at_origin \<and>
   init_file [''c'' \<mapsto> ''rows=1\<newline>  \<newline>cols=1\<newline>(0,0,5)\<newline>''] ''c'' = Inr five_at_origin \<and>
   parse_line (blank_matrix, False, False) 0 (''rows'' @ '' '' @ ''='' @ ''1'') =
     Inl (ValueError ''Input file has wrong format: Unrecognized line format on line 1'')"
proof -
  have sp: "list_all isspace []" "list_all isspace '' ''" "list_all isspace ''  ''"
    "list_all isspace '' \<newline>''" "list_all isspace ''\<newline>''"
    by (simp_all add: isspace_def)
  have p1: "padded (''  '' @ ''rows='' @ '' '' @ ''1'' @ '' \<newline>'') (''rows='' @ ''1'')"
    using sp by (intro padded.rows)
  have p2: "padded ([] @ ''('' @ [] @ ''0'' @ [] @ '','' @ [] @ ''0'' @ [] @ '','' @ [] @ ''5''
              @ [] @ '')'' @ ''\<newline>'')
            (''('' @ ''0'' @ '','' @ ''0'' @ '','' @ ''5'' @ '')'')"
    using sp by (intro padded.data)
  have p3: "padded ('' '' @ ''('' @ '' '' @ ''0'' @ '' '' @ '','' @ '' '' @ ''0'' @ [] @ '',''
              @ [] @ ''5'' @ '' '' @ '')'' @ '' \<newline>'')
            (''('' @ ''0'' @ '','' @ ''0'' @ '','' @ ''5'' @ '')'')"
    using sp by (intro padded.data)
  have q1: "padded ''  rows= 1 \<newline>'' ''rows=1''" using p1 by simp
  have q2: "padded ''(0,0,5)\<newline>'' ''(0,0,5)''" using p2 by simp
  have q3: "padded '' ( 0 , 0,5 ) \<newline>'' ''(0,0,5)''" using p3 by simp
  have la: "readlines ''rows=1\<newline>cols=1\<newline>(0,0,5)\<newline>'' =
      [''rows=1\<newline>'', ''cols=1\<newline>''] @ ''(0,0,5)\<newline>'' # []"
    by code_simp
  have lb: "readlines ''rows=1\<newline>cols=1\<newline> ( 0 , 0,5 ) \<newline>'' =
      [''rows=1\<newline>'', ''cols=1\<newline>''] @ '' ( 0 , 0,5 ) \<newline>'' # []"
    by code_simp
  have la': "readlines ''rows=1\<newline>cols=1\<newline>(0,0,5)\<newline>'' =
      [''rows=1\<newline>''] @ [''cols=1\<newline>'', ''(0,0,5)\<newline>'']"
    by code_simp
  have lc: "readlines ''rows=1\<newline>  \<newline>cols=1\<newline>(0,0,5)\<newline>'' =
      [''rows=1\<newline>''] @ ''  \<newline>'' # [''cols=1\<newline>'', ''(0,0,5)\<newline>'']"
    by code_simp
  have bl: "list_all isspace ''  \<newline>''" by (simp add: isspace_def)
  have fa: "init_file [''a'' \<mapsto> ''rows=1\<newline>cols=1\<newline>(0,0,5)\<newline>''] ''a'' = Inr five_at_origin"
    by code_simp
  have 1: "parse_line (blank_matrix, False, False) 0 ''  rows= 1 \<newline>'' =
      parse_line (blank_matrix, False, False) 0 ''rows=1''"
    using whitespace_ignored [where l' = "''  rows= 1 \<newline>''" and l = "''rows=1''"
        and st = "(blank_matrix, False, False)" and n = 0] q1 by blast
  have 2: "init_file [''b'' \<mapsto> ''rows=1\<newline>cols=1\<newline> ( 0 , 0,5 ) \<newline>''] ''b'' =
      init_file [''a'' \<mapsto> ''rows=1\<newline>cols=1\<newline>(0,0,5)\<newline>''] ''a''"
    using whitespace_ignored [where fs = "[''a'' \<mapsto> ''rows=1\<newline>cols=1\<newline>(0,0,5)\<newline>'']"
        and p = "''a''" and content = "''rows=1\<newline>cols=1\<newline>(0,0,5)\<newline>''"
        and fs' = "[''b'' \<mapsto> ''rows=1\<newline>cols=1\<newline> ( 0 , 0,5 ) \<newline>'']"
        and p' = "''b''" and content' = "''rows=1\<newline>cols=1\<newline> ( 0 , 0,5 ) \<newline>''"
        and xs = "[''rows=1\<newline>'', ''cols=1\<newline>'']" and ys = "[]"
        and ?l1.0 = "''(0,0,5)\<newline>''" and ?l2.0 = "'' ( 0 , 0,5 ) \<newline>''"
        and ?l0.0 = "''(0,0,5)''"]
      la lb q2 q3 by simp
  have 3: "init_file [''c'' \<mapsto> ''rows=1\<newline>  \<newline>cols=1\<newline>(0,0,5)\<newline>''] ''c'' = Inr five_at_origin"
    using whitespace_ignored [where fs = "[''a'' \<mapsto> ''rows=1\<newline>cols=1\<newline>(0,0,5)\<newline>'']"
        and p = "''a''" and content = "''rows=1\<newline>cols=1\<newline>(0,0,5)\<newline>''"
        and fs' = "[''c'' \<mapsto> ''rows=1\<newline>  \<newline>cols=1\<newline>(0,0,5)\<newline>'']"
        and p' = "''c''" and content' = "''rows=1\<newline>  \<newline>cols=1\<newline>(0,0,5)\<newline>''"
        and xs = "[''rows=1\<newline>'']" and ys = "[''cols=1\<newline>'', ''(0,0,5)\<newline>'']"
        and b = "''  \<newline>''" and m = five_at_origin]
      la' lc bl fa by simp
  have s1: "line_error ''Input file has wrong format: Unrecognized line format on line '' 0 =
      ValueError ''Input file has wrong format: Unrecognized line format on line 1''"
    by code_simp
  have 4: "parse_line (blank_matrix, False, False) 0 (''rows'' @ '' '' @ ''='' @ ''1'') =
     Inl (ValueError ''Input file has wrong format: Unrecognized line format on line 1'')"
    using whitespace_ignored [where ?w0.0 = "[]" and w = "'' ''" and name = "''rows''"
        and st = "(blank_matrix, False, False)" and n = 0 and val = "''1''"] sp s1
    by simp
  show ?thesis using q1 q2 q3 1 2 3 4 fa by simp
qed

end
